theory Spec2Isabelle
  imports Complex_Main
begin

section \<open>zenodo\_get: the checksum verifier and the download loop\<close>

text \<open>
  A shallow embedding of \<^verbatim>\<open>src/src/zenodo_get.py\<close>: the function
  \<^verbatim>\<open>check_hash\<close> (lines 44-56), the options of the parser (lines 61-135) and
  the body of the script from the metadata request on (lines 172-244). The DOI
  resolution of lines 137-170 only produces the record ID that the body takes as
  an argument.

  The script is sequential. Its effects are made explicit: a \<open>world\<close> holds
  the files of the working directory and the log of every effect in program order. The
  libraries the script calls (\<^verbatim>\<open>requests\<close>, \<^verbatim>\<open>wget\<close>,
  \<^verbatim>\<open>hashlib\<close>) are the fields of an environment \<open>env\<close>. A raised
  exception that nothing catches ends the run with the outcome \<open>Uncaught\<close>.
\<close>

subsection \<open>Exceptions, messages and effects\<close>

datatype py_error =
    ValueError
  | OverflowError
  | KeyError string
  | FileNotFoundError
  | ConnectionError
  | JSONDecodeError

text \<open>The messages of \<^verbatim>\<open>eprint\<close>, one constructor for each call in the source.\<close>

datatype notice =
    Blank
  | TotalSize int
  | LinkSize string int
  | AlreadyDownloaded string
  | DownloadError
  | TooManyAborted
  | TooManyContinues
  | ChecksumCorrect string
  | ChecksumIncorrect string string
  | FileDeleted
  | FileNotDeleted
  | AllDownloaded
  | RecordNotAccessed

text \<open>A Python float: a finite one stands as the real number it denotes.\<close>

datatype pyfloat =
    Finite real
  | PosInf
  | NegInf
  | NaN

datatype event =
    EPrint notice
  | Print string
  | Download string
  | Sleep pyfloat
  | FRead string nat
  | FWrite string string
  | Remove string

record world =
  fs :: "string \<rightharpoonup> string"
  log :: "event list"

definition emit :: "event \<Rightarrow> world \<Rightarrow> world" where
  "emit e w = w\<lparr>log := log w @ [e]\<rparr>"

definition eprint :: "notice \<Rightarrow> world \<Rightarrow> world" where
  "eprint n w = emit (EPrint n) w"

text \<open>The events a computation added to the log, given the worlds before and after.\<close>

definition emitted :: "world \<Rightarrow> world \<Rightarrow> event list" where
  "emitted w w' = drop (length (log w)) (log w')"

fun is_Download :: "event \<Rightarrow> bool" where
  "is_Download (Download l) = True"
| "is_Download e = False"

definition downloads :: "event list \<Rightarrow> event list" where
  "downloads es = filter is_Download es"

text \<open>How a run ends: by falling off the end of the script, by \<^verbatim>\<open>sys.exit(n)\<close>,
  or by an exception that nothing catches (Python prints the traceback and the exit
  status is 1).\<close>

datatype outcome =
    Finished
  | SysExit int
  | Uncaught py_error

fun exit_status :: "outcome \<Rightarrow> int" where
  "exit_status Finished = 0"
| "exit_status (SysExit n) = n"
| "exit_status (Uncaught e) = 1"

subsection \<open>The metadata and the collaborators\<close>

text \<open>
  The JSON body of the metadata response, as far as the script reads it: the object's
  \<^verbatim>\<open>files\<close>, and of every file \<^verbatim>\<open>size\<close>, \<^verbatim>\<open>key\<close>,
  \<^verbatim>\<open>checksum\<close> and \<^verbatim>\<open>links\<close> (an object read at
  \<^verbatim>\<open>self\<close>). A key that is absent is \<open>None\<close>; a key that is present has
  a value of the type the script expects.
\<close>

record file_json =
  f_size :: "int option"
  f_key :: "string option"
  f_checksum :: "string option"
  f_links :: "(string \<times> string) list option"

record js =
  js_files :: "file_json list option"

text \<open>The response of \<^verbatim>\<open>requests.get\<close>: \<^verbatim>\<open>r.ok\<close>, and what
  \<^verbatim>\<open>json.loads(r.text)\<close> gives (\<open>None\<close> when the text is not JSON).\<close>

record response =
  ok :: bool
  body :: "js option"

text \<open>
  \<^item> \<open>requests_get url\<close>: \<open>None\<close> when the request raises.
  \<^item> \<open>wget_download k link\<close>: the call of \<^verbatim>\<open>wget.download(link)\<close> made
    after \<open>k\<close> earlier calls; \<open>None\<close> when it raises, else the name of the file it
    wrote and the bytes it wrote there.
  \<^item> \<open>hashlib_new algorithm\<close>: \<open>None\<close> when the name is not supported, else the
    hexadecimal digest of the bytes fed to the hash object.
  \<^item> \<open>sleep_limit\<close>: the longest time in seconds that the clock type of
    \<^verbatim>\<open>time.sleep\<close> can hold on the platform (with nanoseconds counted in 64 bits,
    a little more than \<open>9.2 * 10^9\<close>).
\<close>

record env =
  requests_get :: "string \<Rightarrow> response option"
  wget_download :: "nat \<Rightarrow> string \<Rightarrow> (string \<times> string) option"
  hashlib_new :: "string \<Rightarrow> (string \<Rightarrow> string) option"
  sleep_limit :: real

subsection \<open>The options\<close>

text \<open>The values of \<^verbatim>\<open>options\<close> after \<^verbatim>\<open>parser.parse_args()\<close>. An
  attribute of \<^verbatim>\<open>optparse\<close> can hold \<^verbatim>\<open>None\<close>, so the attributes
  the script compares with \<^verbatim>\<open>None\<close> are options. The pause is any float
  that \<^verbatim>\<open>float()\<close> reads (\<^verbatim>\<open>type=float\<close>, no check): of any sign and
  size, infinite, or not a number. The retry count is an integer of any sign.\<close>

record options =
  cite :: bool
  record_id :: "string option"
  doi :: "string option"
  md5 :: "bool option"
  wget :: "string option"
  error :: bool
  keep :: bool
  cont :: bool
  retry :: int
  pause :: pyfloat

text \<open>The defaults of the \<^verbatim>\<open>add_option\<close> calls.\<close>

definition default_options :: options where
  "default_options =
     \<lparr>cite = False, record_id = None, doi = None, md5 = Some False, wget = None,
      error = False, keep = False, cont = True, retry = 0, pause = Finite (1 / 2)\<rparr>"

text \<open>An option given on the command line, with its value already converted.\<close>

datatype flag =
    Cite
  | Record string
  | Doi string
  | Md5
  | Wget string
  | ContinueOnError
  | Keep
  | DoNotContinue
  | Retry int
  | Pause pyfloat

fun set_flag :: "options \<Rightarrow> flag \<Rightarrow> options" where
  "set_flag opts Cite = opts\<lparr>cite := True\<rparr>"
| "set_flag opts (Record r) = opts\<lparr>record_id := Some r\<rparr>"
| "set_flag opts (Doi d) = opts\<lparr>doi := Some d\<rparr>"
| "set_flag opts Md5 = opts\<lparr>md5 := Some True\<rparr>"
| "set_flag opts (Wget t) = opts\<lparr>wget := Some t\<rparr>"
| "set_flag opts ContinueOnError = opts\<lparr>error := True\<rparr>"
| "set_flag opts Keep = opts\<lparr>keep := True\<rparr>"
| "set_flag opts DoNotContinue = opts\<lparr>cont := False\<rparr>"
| "set_flag opts (Retry n) = opts\<lparr>retry := n\<rparr>"
| "set_flag opts (Pause p) = opts\<lparr>pause := p\<rparr>"

definition parse_flags :: "flag list \<Rightarrow> options" where
  "parse_flags flags = foldl set_flag default_options flags"

subsection \<open>check\_hash\<close>

text \<open>\<^verbatim>\<open>s.split(sep)\<close> for a separator of one character: the pieces between
  the separators, at least one.\<close>

fun split_on :: "char \<Rightarrow> string \<Rightarrow> string list" where
  "split_on sep [] = [[]]"
| "split_on sep (c # cs) =
     (if c = sep then [] # split_on sep cs
      else (let r = split_on sep cs in (c # hd r) # tl r))"

text \<open>\<^verbatim>\<open>f.read(n)\<close> on a file opened for reading at offset \<open>pos\<close>.\<close>

definition content :: "world \<Rightarrow> string \<Rightarrow> string" where
  "content w name = (case fs w name of None \<Rightarrow> [] | Some c \<Rightarrow> c)"

definition file_read :: "string \<Rightarrow> nat \<Rightarrow> nat \<Rightarrow> world \<Rightarrow> string \<times> world" where
  "file_read name pos n w =
     (let d = take n (drop pos (content w name))
      in (d, emit (FRead name (length d)) w))"

text \<open>The loop of lines 50-54; \<open>h\<close> is what \<^verbatim>\<open>h.update\<close> has been fed.\<close>

function read_loop :: "string \<Rightarrow> nat \<Rightarrow> string \<Rightarrow> world \<Rightarrow> string \<times> world" where
  "read_loop name pos h w =
     (case file_read name pos 4096 w of
        (d, w') \<Rightarrow> if d = [] then (h, w') else read_loop name (pos + length d) (h @ d) w')"
  by pat_completeness auto
termination
  by (relation "measure (\<lambda>(name, pos, h, w). length (content w name) - pos)")
     (auto simp: file_read_def emit_def content_def Let_def split: option.splits)

declare read_loop.simps [simp del]

definition check_hash ::
  "env \<Rightarrow> string \<Rightarrow> string \<Rightarrow> world \<Rightarrow> (py_error + string \<times> string) \<times> world" where
  "check_hash E filename checksum w =
     (case split_on CHR '':'' checksum of
        [algorithm, val] \<Rightarrow>
          (if fs w filename = None then (Inr (val, ''invalid''), w)
           else (case hashlib_new E algorithm of
                   None \<Rightarrow> (Inl ValueError, w)
                 | Some hexdigest \<Rightarrow>
                     (case read_loop filename 0 [] w of
                        (h, w') \<Rightarrow> (Inr (val, hexdigest h), w'))))
      | _ \<Rightarrow> (Inl ValueError, w))"

subsection \<open>The body of the script\<close>

text \<open>\<^verbatim>\<open>f[k]\<close> on a dictionary: \<^verbatim>\<open>KeyError\<close> when the key is absent.\<close>

definition getitem :: "'a option \<Rightarrow> string \<Rightarrow> py_error + 'a" where
  "getitem v k = (case v of None \<Rightarrow> Inl (KeyError k) | Some x \<Rightarrow> Inr x)"

text \<open>\<^verbatim>\<open>f['links']['self']\<close>.\<close>

definition link_of :: "file_json \<Rightarrow> py_error + string" where
  "link_of f =
     (case getitem (f_links f) ''links'' of
        Inl e \<Rightarrow> Inl e
      | Inr links \<Rightarrow> getitem (map_of links ''self'') ''self'')"

text \<open>Line 177, \<^verbatim>\<open>sum(f['size'] for f in files)\<close>, from the left.\<close>

fun sum_sizes :: "int \<Rightarrow> file_json list \<Rightarrow> py_error + int" where
  "sum_sizes acc [] = Inr acc"
| "sum_sizes acc (f # files) =
     (case getitem (f_size f) ''size'' of
        Inl e \<Rightarrow> Inl e
      | Inr s \<Rightarrow> sum_sizes (acc + s) files)"

text \<open>Lines 181-184: the text written to \<^verbatim>\<open>md5sums.txt\<close>. With an exception the
  \<^verbatim>\<open>with\<close> block closes the file, which keeps the lines written before.\<close>

definition md5_line :: "string \<Rightarrow> string \<Rightarrow> string" where
  "md5_line checksum fname =
     last (split_on CHR '':'' checksum) @ ''  '' @ fname @ [CHR 0x0A]"

fun md5_lines :: "string \<Rightarrow> file_json list \<Rightarrow> py_error option \<times> string" where
  "md5_lines out [] = (None, out)"
| "md5_lines out (f # files) =
     (case getitem (f_key f) ''key'' of
        Inl e \<Rightarrow> (Some e, out)
      | Inr fname \<Rightarrow>
          (case getitem (f_checksum f) ''checksum'' of
             Inl e \<Rightarrow> (Some e, out)
           | Inr checksum \<Rightarrow> md5_lines (out @ md5_line checksum fname) files))"

definition write_file :: "string \<Rightarrow> string \<Rightarrow> world \<Rightarrow> world" where
  "write_file name text w = emit (FWrite name text) (w\<lparr>fs := (fs w)(name \<mapsto> text)\<rparr>)"

definition write_md5sums :: "file_json list \<Rightarrow> world \<Rightarrow> py_error option \<times> world" where
  "write_md5sums files w =
     (case md5_lines [] files of (err, out) \<Rightarrow> (err, write_file ''md5sums.txt'' out w))"

text \<open>Lines 188-190: the links on standard output.\<close>

fun print_links :: "file_json list \<Rightarrow> world \<Rightarrow> py_error option \<times> world" where
  "print_links [] w = (None, w)"
| "print_links (f # files) w =
     (case link_of f of
        Inl e \<Rightarrow> (Some e, w)
      | Inr link \<Rightarrow> print_links files (emit (Print link) w))"

text \<open>Lines 192-195: the links in a file.\<close>

fun link_lines :: "string \<Rightarrow> file_json list \<Rightarrow> py_error option \<times> string" where
  "link_lines out [] = (None, out)"
| "link_lines out (f # files) =
     (case link_of f of
        Inl e \<Rightarrow> (Some e, out)
      | Inr link \<Rightarrow> link_lines (out @ link @ [CHR 0x0A]) files)"

definition write_links :: "string \<Rightarrow> file_json list \<Rightarrow> world \<Rightarrow> py_error option \<times> world" where
  "write_links target files w =
     (if target = ''-'' then print_links files w
      else (case link_lines [] files of (err, out) \<Rightarrow> (err, write_file target out w)))"

text \<open>\<^verbatim>\<open>time.sleep(secs)\<close>. CPython first converts the float to its clock type:
  \<^verbatim>\<open>ValueError\<close> for a float that is not a number, \<^verbatim>\<open>OverflowError\<close> for
  an infinite one and for one whose size the clock type cannot hold. It then raises
  \<^verbatim>\<open>ValueError\<close> for a negative length, and sleeps otherwise.\<close>

definition time_sleep :: "env \<Rightarrow> pyfloat \<Rightarrow> world \<Rightarrow> py_error + world" where
  "time_sleep E secs w =
     (case secs of
        NaN \<Rightarrow> Inl ValueError
      | PosInf \<Rightarrow> Inl OverflowError
      | NegInf \<Rightarrow> Inl OverflowError
      | Finite x \<Rightarrow>
          if sleep_limit E < \<bar>x\<bar> then Inl OverflowError
          else if x < 0 then Inl ValueError
          else Inr (emit (Sleep secs) w))"

text \<open>\<^verbatim>\<open>os.remove\<close> raises \<^verbatim>\<open>FileNotFoundError\<close> for a missing file.\<close>

definition os_remove :: "string \<Rightarrow> world \<Rightarrow> py_error + world" where
  "os_remove name w =
     (if fs w name = None then Inl FileNotFoundError
      else Inr (emit (Remove name) (w\<lparr>fs := (fs w)(name := None)\<rparr>)))"

text \<open>The call of \<^verbatim>\<open>wget.download\<close>: the number of the call is the number of
  downloads in the log.\<close>

definition download :: "env \<Rightarrow> string \<Rightarrow> world \<Rightarrow> string option \<times> world" where
  "download E link w =
     (case wget_download E (length (downloads (log w))) link of
        None \<Rightarrow> (None, emit (Download link) w)
      | Some (filename, bytes) \<Rightarrow>
          (Some filename, emit (Download link) (w\<lparr>fs := (fs w)(filename \<mapsto> bytes)\<rparr>)))"

text \<open>Lines 212-219, the \<^verbatim>\<open>for _ in range(options.retry+1)\<close> loop with \<open>n\<close>
  iterations left. \<open>Exhausted\<close> is the \<^verbatim>\<open>else\<close> branch of the loop; an
  exception raised in the handler leaves the loop.\<close>

datatype attempt =
    Fetched string
  | Exhausted
  | Raised py_error

fun retry_loop :: "env \<Rightarrow> options \<Rightarrow> string \<Rightarrow> nat \<Rightarrow> world \<Rightarrow> attempt \<times> world" where
  "retry_loop E opts link 0 w = (Exhausted, w)"
| "retry_loop E opts link (Suc n) w =
     (case download E link w of
        (Some filename, w1) \<Rightarrow> (Fetched filename, w1)
      | (None, w1) \<Rightarrow>
          (case time_sleep E (pause opts) (eprint DownloadError w1) of
             Inl e \<Rightarrow> (Raised e, eprint DownloadError w1)
           | Inr w2 \<Rightarrow> retry_loop E opts link n w2))"

text \<open>What one iteration of the loop over the files tells the loop: go on with the next
  file, or end the run.\<close>

datatype signal =
    Next
  | Stop outcome

text \<open>Lines 228-240, after a download that returned \<open>filename\<close>.\<close>

definition post_check ::
  "env \<Rightarrow> options \<Rightarrow> string \<Rightarrow> string \<Rightarrow> world \<Rightarrow> signal \<times> world" where
  "post_check E opts filename checksum w =
     (case check_hash E filename checksum (eprint Blank w) of
        (Inl e, w1) \<Rightarrow> (Stop (Uncaught e), w1)
      | (Inr (h1, h2), w1) \<Rightarrow>
          if h1 = h2 then (Next, eprint (ChecksumCorrect h1) w1)
          else (let w2 = eprint (ChecksumIncorrect h1 h2) w1 in
            (case (if \<not> keep opts then os_remove filename (eprint FileDeleted w2)
                   else Inr (eprint FileNotDeleted w2)) of
               Inl e \<Rightarrow> (Stop (Uncaught e), eprint FileDeleted w2)
             | Inr w3 \<Rightarrow> if \<not> error opts then (Stop (SysExit 1), w3) else (Next, w3))))"

text \<open>Lines 199-240, one iteration of \<^verbatim>\<open>for f in files\<close>.\<close>

definition process_file :: "env \<Rightarrow> options \<Rightarrow> file_json \<Rightarrow> world \<Rightarrow> signal \<times> world" where
  "process_file E opts f w =
     (case link_of f of
        Inl e \<Rightarrow> (Stop (Uncaught e), w)
      | Inr link \<Rightarrow>
     (case getitem (f_size f) ''size'' of
        Inl e \<Rightarrow> (Stop (Uncaught e), w)
      | Inr sz \<Rightarrow>
     (let w1 = eprint (LinkSize link sz) (eprint Blank w) in
     (case getitem (f_key f) ''key'' of
        Inl e \<Rightarrow> (Stop (Uncaught e), w1)
      | Inr fname \<Rightarrow>
     (case getitem (f_checksum f) ''checksum'' of
        Inl e \<Rightarrow> (Stop (Uncaught e), w1)
      | Inr checksum \<Rightarrow>
     (case check_hash E fname checksum w1 of
        (Inl e, w2) \<Rightarrow> (Stop (Uncaught e), w2)
      | (Inr (remote_hash, local_hash), w2) \<Rightarrow>
          if remote_hash = local_hash \<and> cont opts
          then (Next, eprint (AlreadyDownloaded fname) w2)
          else
            (case retry_loop E opts link (nat (retry opts + 1)) w2 of
               (Raised e, w3) \<Rightarrow> (Stop (Uncaught e), w3)
             | (Exhausted, w3) \<Rightarrow>
                 if \<not> error opts then (Stop (SysExit 0), eprint TooManyAborted w3)
                 else (Next, eprint TooManyContinues w3)
             | (Fetched filename, w3) \<Rightarrow> post_check E opts filename checksum w3)))))))"

text \<open>Lines 198-240: the loop ends at the first iteration that ends the run.\<close>

fun for_files :: "env \<Rightarrow> options \<Rightarrow> file_json list \<Rightarrow> world \<Rightarrow> outcome option \<times> world" where
  "for_files E opts [] w = (None, w)"
| "for_files E opts (f # files) w =
     (case process_file E opts f w of
        (Stop out, w') \<Rightarrow> (Some out, w')
      | (Next, w') \<Rightarrow> for_files E opts files w')"

text \<open>Lines 186-241: the link list, or the loop over the files and the final notice.\<close>

definition deliver ::
  "env \<Rightarrow> options \<Rightarrow> file_json list \<Rightarrow> int \<Rightarrow> world \<Rightarrow> outcome \<times> world" where
  "deliver E opts files total_size w =
     (case wget opts of
        Some target \<Rightarrow>
          (case write_links target files w of
             (Some e, w2) \<Rightarrow> (Uncaught e, w2)
           | (None, w2) \<Rightarrow> (Finished, w2))
      | None \<Rightarrow>
          (case for_files E opts files (eprint (TotalSize total_size) w) of
             (Some out, w2) \<Rightarrow> (out, w2)
           | (None, w2) \<Rightarrow> (Finished, eprint AllDownloaded w2)))"

text \<open>Lines 172-244.\<close>

definition main_body :: "env \<Rightarrow> options \<Rightarrow> string \<Rightarrow> world \<Rightarrow> outcome \<times> world" where
  "main_body E opts recordID w =
     (case requests_get E (''https://zenodo.org/api/records/'' @ recordID) of
        None \<Rightarrow> (Uncaught ConnectionError, w)
      | Some r \<Rightarrow>
     (if ok r then
     (case body r of
        None \<Rightarrow> (Uncaught JSONDecodeError, w)
      | Some j \<Rightarrow>
     (case getitem (js_files j) ''files'' of
        Inl e \<Rightarrow> (Uncaught e, w)
      | Inr files \<Rightarrow>
     (case sum_sizes 0 files of
        Inl e \<Rightarrow> (Uncaught e, w)
      | Inr total_size \<Rightarrow>
     (case (if md5 opts \<noteq> None then write_md5sums files w else (None, w)) of
        (Some e, w1) \<Rightarrow> (Uncaught e, w1)
      | (None, w1) \<Rightarrow> deliver E opts files total_size w1))))
      else (SysExit 1, eprint RecordNotAccessed w)))"

subsection \<open>Predicates and example inputs of the properties\<close>

text \<open>A read of at most one buffer from the file \<open>name\<close>.\<close>

fun is_read_of :: "string \<Rightarrow> event \<Rightarrow> bool" where
  "is_read_of name (FRead n k) = (n = name \<and> k \<le> 4096)"
| "is_read_of name e = False"

definition is_hex :: "char \<Rightarrow> bool" where
  "is_hex c = (c \<in> set ''0123456789abcdefABCDEF'')"

text \<open>A hash function for the examples: it separates the bytes \<open>hello\<close> from all
  others.\<close>

definition toy_digest :: "string \<Rightarrow> string" where
  "toy_digest bytes = (if bytes = ''hello'' then ''5d41'' else ''0000'')"

definition toy_hashlib :: "string \<Rightarrow> (string \<Rightarrow> string) option" where
  "toy_hashlib a = (if a = ''md5'' then Some toy_digest else None)"

text \<open>An environment in which no request is answered and every download writes
  \<open>hello\<close> to \<open>a.txt\<close>.\<close>

definition E_ok :: env where
  "E_ok = \<lparr>requests_get = (\<lambda>u. None),
     wget_download = (\<lambda>k l. Some (''a.txt'', ''hello'')),
     hashlib_new = toy_hashlib, sleep_limit = 9223372036\<rparr>"

definition w_empty :: world where
  "w_empty = \<lparr>fs = Map.empty, log = []\<rparr>"

definition w_hello :: world where
  "w_hello = \<lparr>fs = [''a.txt'' \<mapsto> ''hello''], log = []\<rparr>"

text \<open>The log of \<open>w'\<close> continues the log of \<open>w\<close>.\<close>

definition extends :: "world \<Rightarrow> world \<Rightarrow> bool" where
  "extends w w' = (take (length (log w)) (log w') = log w)"

fun is_notice :: "event \<Rightarrow> bool" where
  "is_notice (EPrint n) = True"
| "is_notice e = False"

text \<open>A manifest entry with all its fields, and a metadata request that is answered
  with a manifest.\<close>

definition entry :: "int \<Rightarrow> string \<Rightarrow> string \<Rightarrow> string \<Rightarrow> file_json" where
  "entry sz name checksum link =
     \<lparr>f_size = Some sz, f_key = Some name, f_checksum = Some checksum,
      f_links = Some [(''self'', link)]\<rparr>"

definition serve :: "file_json list \<Rightarrow> string \<Rightarrow> response option" where
  "serve files url = Some \<lparr>ok = True, body = Some \<lparr>js_files = Some files\<rparr>\<rparr>"

text \<open>The effects of one failed attempt of the retry loop, in order.\<close>

definition failed_attempt :: "string \<Rightarrow> pyfloat \<Rightarrow> event list" where
  "failed_attempt link secs = [Download link, EPrint DownloadError, Sleep secs]"

text \<open>Environments in which every download raises, and in which the first two do.\<close>

definition E_fail :: env where
  "E_fail = \<lparr>requests_get = serve [entry 5 ''a.txt'' ''md5:5d41'' ''http://x/a'',
                                     entry 7 ''b.txt'' ''md5:0000'' ''http://x/b''],
     wget_download = (\<lambda>k l. None),
     hashlib_new = toy_hashlib, sleep_limit = 9223372036\<rparr>"

definition E_flaky :: env where
  "E_flaky = \<lparr>requests_get = (\<lambda>u. None),
     wget_download = (\<lambda>k l. if k < 2 then None else Some (''a.txt'', ''hello'')),
     hashlib_new = toy_hashlib, sleep_limit = 9223372036\<rparr>"

text \<open>An environment in which every download writes bytes with another digest than the
  manifest announces.\<close>

definition E_bad :: env where
  "E_bad = \<lparr>requests_get = serve [entry 5 ''a.txt'' ''md5:5d41'' ''http://x/a'',
                                    entry 7 ''b.txt'' ''md5:0000'' ''http://x/b''],
     wget_download = (\<lambda>k l. Some (''a.txt'', ''junk'')),
     hashlib_new = toy_hashlib, sleep_limit = 9223372036\<rparr>"

text \<open>The fields of a manifest entry that the script reads before the download loop, and
  the link that both the link list and the loop read.\<close>

definition has_fields :: "file_json \<Rightarrow> bool" where
  "has_fields f = (f_size f \<noteq> None \<and> f_key f \<noteq> None \<and> f_checksum f \<noteq> None)"

definition has_link :: "file_json \<Rightarrow> bool" where
  "has_link f = (case link_of f of Inl e \<Rightarrow> False | Inr link \<Rightarrow> True)"

text \<open>The checksum manifest as the specification describes it: for every file of the
  manifest, in order, one line made of the expected digest (what follows the colon of the
  checksum string), two spaces, the file name and a newline.\<close>

definition digest_part :: "string \<Rightarrow> string" where
  "digest_part checksum = rev (takeWhile (\<lambda>c. c \<noteq> CHR '':'') (rev checksum))"

fun md5sums_text :: "file_json list \<Rightarrow> string" where
  "md5sums_text [] = []"
| "md5sums_text (f # files) =
     (case (f_checksum f, f_key f) of
        (Some checksum, Some fname) \<Rightarrow>
          digest_part checksum @ [CHR 0x20, CHR 0x20] @ fname @ [CHR 0x0A]
      | _ \<Rightarrow> []) @ md5sums_text files"

text \<open>The total size as the specification describes it: the sum of the declared sizes
  of the files.\<close>

definition declared_total :: "file_json list \<Rightarrow> int" where
  "declared_total files =
     sum_list (map (\<lambda>f. case f_size f of None \<Rightarrow> 0 | Some s \<Rightarrow> s) files)"

text \<open>A pause that \<^verbatim>\<open>time.sleep\<close> accepts: finite, not negative, within the
  limit of the platform.\<close>

fun sleep_ok :: "env \<Rightarrow> pyfloat \<Rightarrow> bool" where
  "sleep_ok E (Finite x) = (0 \<le> x \<and> x \<le> sleep_limit E)"
| "sleep_ok E p = False"

text \<open>Requests answered with a manifest whose one entry has no size, and whose one entry
  has a checksum without a colon.\<close>

definition E_nosize :: env where
  "E_nosize = \<lparr>requests_get = serve [\<lparr>f_size = None, f_key = Some ''a.txt'',
        f_checksum = Some ''md5:5d41'', f_links = Some [(''self'', ''http://x/a'')]\<rparr>],
     wget_download = (\<lambda>k l. Some (''a.txt'', ''hello'')),
     hashlib_new = toy_hashlib, sleep_limit = 9223372036\<rparr>"

definition E_nocolon :: env where
  "E_nocolon = \<lparr>requests_get = serve [entry 5 ''a.txt'' ''5d41'' ''http://x/a''],
     wget_download = (\<lambda>k l. Some (''a.txt'', ''hello'')),
     hashlib_new = toy_hashlib, sleep_limit = 9223372036\<rparr>"

text \<open>Requests answered with a manifest of two files, the second without a checksum.\<close>

definition E_nochecksum :: env where
  "E_nochecksum = \<lparr>requests_get = serve [entry 5 ''a.txt'' ''md5:5d41'' ''http://x/a'',
        \<lparr>f_size = Some 7, f_key = Some ''b.txt'', f_checksum = None,
         f_links = Some [(''self'', ''http://x/b'')]\<rparr>],
     wget_download = (\<lambda>k l. Some (''a.txt'', ''hello'')),
     hashlib_new = toy_hashlib, sleep_limit = 9223372036\<rparr>"

text \<open>Requests answered with a manifest of one file, which the download then writes
  with the right bytes.\<close>

definition E_one :: env where
  "E_one = \<lparr>requests_get = serve [entry 5 ''a.txt'' ''md5:5d41'' ''http://x/a''],
     wget_download = (\<lambda>k l. Some (''a.txt'', ''hello'')),
     hashlib_new = toy_hashlib, sleep_limit = 9223372036\<rparr>"

text \<open>A run that ends by \<^verbatim>\<open>sys.exit\<close> with a status that is not zero, after a
  message on the diagnostic stream.\<close>

fun reported_failure :: "outcome \<times> event list \<Rightarrow> bool" where
  "reported_failure (SysExit n, es) = (n \<noteq> 0 \<and> filter is_notice es \<noteq> [])"
| "reported_failure (out, es) = False"

section \<open>Properties\<close>

subsection \<open>The pieces of a split string\<close>

lemma split_on_not_Nil: "split_on sep s \<noteq> []"
  by (induction s) (auto simp: Let_def)

lemma split_on_no_sep: "sep \<notin> set s \<Longrightarrow> split_on sep s = [s]"
  by (induction s) (auto simp: Let_def)

lemma split_on_one_sep:
  "sep \<notin> set a \<Longrightarrow> sep \<notin> set b \<Longrightarrow> split_on sep (a @ sep # b) = [a, b]"
  by (induction a) (auto simp: Let_def split_on_no_sep)

lemma split_on_tl: "sep \<in> set s \<Longrightarrow> tl (split_on sep s) \<noteq> []"
  by (induction s) (auto simp: Let_def split_on_not_Nil)

text \<open>The last piece of the split is what follows the last separator.\<close>

lemma last_split_on:
  "last (split_on sep s) = rev (takeWhile (\<lambda>c. c \<noteq> sep) (rev s))"
proof (induction s)
  case Nil
  then show ?case by simp
next
  case (Cons c cs)
  show ?case
  proof (cases "sep \<in> set cs")
    case True
    then have t: "tl (split_on sep cs) \<noteq> []" by (rule split_on_tl)
    have "takeWhile (\<lambda>c. c \<noteq> sep) (rev cs @ [c]) = takeWhile (\<lambda>c. c \<noteq> sep) (rev cs)"
      using True by (intro takeWhile_append1[of sep]) simp_all
    moreover have "last (split_on sep (c # cs)) = last (split_on sep cs)"
      using t split_on_not_Nil[of sep cs]
      by (cases "split_on sep cs") (auto simp: Let_def)
    ultimately show ?thesis using Cons.IH by simp
  next
    case False
    then have "split_on sep cs = [cs]" by (rule split_on_no_sep)
    moreover have "takeWhile (\<lambda>c. c \<noteq> sep) (rev cs @ [c]) =
        rev cs @ takeWhile (\<lambda>c. c \<noteq> sep) [c]"
      using False by (intro takeWhile_append2) auto
    ultimately show ?thesis by (simp add: Let_def)
  qed
qed

subsection \<open>What check\_hash does to the world\<close>

lemma fs_emit: "fs (emit e w) = fs w"
  by (simp add: emit_def)

lemma log_emit: "log (emit e w) = log w @ [e]"
  by (simp add: emit_def)

lemma content_emit: "content (emit e w) name = content w name"
  by (simp add: content_def emit_def)

lemma read_loop_frame:
  "read_loop name pos h w = (r, w') \<Longrightarrow>
     fs w' = fs w \<and> r = h @ drop pos (content w name) \<and>
     (\<exists>es. log w' = log w @ es \<and> list_all (is_read_of name) es)"
proof (induction name pos h w arbitrary: r w' rule: read_loop.induct)
  case (1 name pos h w)
  let ?d = "take 4096 (drop pos (content w name))"
  let ?w1 = "emit (FRead name (length ?d)) w"
  show ?case
  proof (cases "?d = []")
    case True
    then have "read_loop name pos h w = (h, ?w1)"
      by (subst read_loop.simps) (simp add: file_read_def Let_def)
    with "1.prems" have eq: "r = h" "w' = ?w1" by simp_all
    from True have "drop pos (content w name) = []" by (auto simp: take_eq_Nil)
    with eq show ?thesis by (simp add: fs_emit log_emit)
  next
    case False
    then have step: "read_loop name pos h w = read_loop name (pos + length ?d) (h @ ?d) ?w1"
      by (subst read_loop.simps) (simp add: file_read_def Let_def)
    with "1.prems" have "read_loop name (pos + length ?d) (h @ ?d) ?w1 = (r, w')" by simp
    have fr: "(?d, ?w1) = file_read name pos 4096 w"
      by (simp add: file_read_def Let_def)
    from "1.IH"[OF fr False \<open>read_loop name (pos + length ?d) (h @ ?d) ?w1 = (r, w')\<close>]
    have ih: "fs w' = fs ?w1" "r = (h @ ?d) @ drop (pos + length ?d) (content ?w1 name)"
      "\<exists>es. log w' = log ?w1 @ es \<and> list_all (is_read_of name) es"
      by simp_all
    have "?d @ drop (pos + length ?d) (content w name) = drop pos (content w name)"
      by (metis add.commute append_take_drop_id drop_drop length_take min.commute take_all_iff min_def linorder_not_le order_less_imp_le)
    with ih show ?thesis
      by (auto simp: fs_emit log_emit content_emit)
  qed
qed

lemma check_hash_frame:
  "check_hash E filename checksum w = (r, w') \<Longrightarrow>
     fs w' = fs w \<and> (\<exists>es. log w' = log w @ es \<and> list_all (is_read_of filename) es)"
  by (auto simp: check_hash_def split: list.splits if_splits option.splits prod.splits
           dest: read_loop_frame)

lemma log_emitted: "log w' = log w @ es \<Longrightarrow> emitted w w' = es"
  by (simp add: emitted_def)

text \<open>
  Claim C10. \<^verbatim>\<open>check_hash\<close> never modifies the filesystem: whatever the file name
  and the checksum string, the files after the call are the files before it, and all the
  call adds to the log of effects are reads of the file being verified, each of at most
  one buffer of 4096 bytes.
\<close>

theorem check_hash_reads_only:
  "fs (snd (check_hash E filename checksum w)) = fs w \<and>
   log (snd (check_hash E filename checksum w)) =
     log w @ emitted w (snd (check_hash E filename checksum w)) \<and>
   list_all (is_read_of filename) (emitted w (snd (check_hash E filename checksum w)))"
proof -
  obtain r w' where eq: "check_hash E filename checksum w = (r, w')"
    by (cases "check_hash E filename checksum w")
  from check_hash_frame[OF eq] obtain es where
    "fs w' = fs w" "log w' = log w @ es" "list_all (is_read_of filename) es" by blast
  with eq show ?thesis by (simp add: log_emitted)
qed

theorem check_hash_reads_only_witness:
  "fs (snd (check_hash E_ok ''a.txt'' ''md5:5d41'' w_hello)) = fs w_hello \<and>
   emitted w_hello (snd (check_hash E_ok ''a.txt'' ''md5:5d41'' w_hello)) =
     [FRead ''a.txt'' 5, FRead ''a.txt'' 0] \<and>
   fst (check_hash E_ok ''a.txt'' ''md5:5d41'' w_hello) = Inr (''5d41'', ''5d41'')"
proof -
  have "emitted w_hello (snd (check_hash E_ok ''a.txt'' ''md5:5d41'' w_hello)) =
     [FRead ''a.txt'' 5, FRead ''a.txt'' 0]" by code_simp
  moreover have "fst (check_hash E_ok ''a.txt'' ''md5:5d41'' w_hello) = Inr (''5d41'', ''5d41'')"
    by code_simp
  ultimately show ?thesis
    using check_hash_reads_only[of E_ok "''a.txt''" "''md5:5d41''" w_hello] by simp
qed

text \<open>
  Claim C7. For a checksum string \<open>algorithm:hexdigest\<close> (no colon in the algorithm
  name, hexadecimal digits after the colon) and a file name that does not exist,
  \<^verbatim>\<open>check_hash\<close> returns the expected digest and the string \<open>invalid\<close>, and
  the two differ, so the comparison of the caller fails.
\<close>

theorem check_hash_missing_file:
  assumes "CHR '':'' \<notin> set algorithm" and "list_all is_hex hexdigest"
    and "fs w filename = None"
  shows "check_hash E filename (algorithm @ '':'' @ hexdigest) w =
           (Inr (hexdigest, ''invalid''), w) \<and> hexdigest \<noteq> ''invalid''"
proof -
  have nohex: "\<not> list_all is_hex ''invalid''" by (simp add: is_hex_def)
  have "\<not> is_hex CHR '':''" by (simp add: is_hex_def)
  with assms(2) have "CHR '':'' \<notin> set hexdigest"
    unfolding list_all_iff by blast
  with assms(1) have "split_on CHR '':'' (algorithm @ '':'' @ hexdigest) = [algorithm, hexdigest]"
    using split_on_one_sep[of "CHR '':''" algorithm hexdigest] by simp
  moreover from nohex assms(2) have "hexdigest \<noteq> ''invalid''" by blast
  ultimately show ?thesis using assms(3) by (simp add: check_hash_def)
qed

theorem check_hash_missing_file_witness:
  "check_hash E_ok ''b.txt'' ''md5:5d41'' w_hello = (Inr (''5d41'', ''invalid''), w_hello)"
  using check_hash_missing_file[of "''md5''" "''5d41''" w_hello "''b.txt''" E_ok]
  by (simp add: is_hex_def w_hello_def)

subsection \<open>The log of effects\<close>

lemma extends_iff: "extends w w' \<longleftrightarrow> (\<exists>es. log w' = log w @ es)"
  unfolding extends_def
  by (metis append_eq_conv_conj append_take_drop_id)

lemma extends_emitted: "extends w w' \<Longrightarrow> log w' = log w @ emitted w w'"
  unfolding extends_def emitted_def by (metis append_take_drop_id)

lemma extends_refl: "extends w w"
  by (simp add: extends_def)

lemma extends_trans: "extends w w1 \<Longrightarrow> extends w1 w2 \<Longrightarrow> extends w w2"
  by (auto simp: extends_iff)

lemma extends_emit: "extends w (emit e w)"
  by (simp add: extends_iff emit_def)

lemma extends_eprint: "extends w (eprint n w)"
  by (simp add: eprint_def extends_emit)

lemma emitted_trans:
  "extends w w1 \<Longrightarrow> extends w1 w2 \<Longrightarrow> emitted w w2 = emitted w w1 @ emitted w1 w2"
  by (auto simp: extends_iff emitted_def)

lemma check_hash_extends: "check_hash E filename checksum w = (r, w') \<Longrightarrow> extends w w'"
  using check_hash_frame[of E filename checksum w r w'] by (auto simp: extends_iff)

lemma check_hash_emitted:
  "check_hash E filename checksum w = (r, w') \<Longrightarrow> list_all (is_read_of filename) (emitted w w')"
  using check_hash_frame[of E filename checksum w r w'] by (auto simp: emitted_def)

lemma check_hash_fs: "check_hash E filename checksum w = (r, w') \<Longrightarrow> fs w' = fs w"
  using check_hash_frame[of E filename checksum w r w'] by simp

lemma reads_no_download: "list_all (is_read_of name) es \<Longrightarrow> downloads es = []"
proof (induction es)
  case Nil
  then show ?case by (simp add: downloads_def)
next
  case (Cons e es)
  then show ?case by (cases e) (simp_all add: downloads_def)
qed

subsection \<open>The retry loop\<close>

lemma downloads_append: "downloads (xs @ ys) = downloads xs @ downloads ys"
  by (simp add: downloads_def)

lemma downloads_failed_attempt: "downloads (failed_attempt link p) = [Download link]"
  by (simp add: downloads_def failed_attempt_def)

lemma downloads_attempts:
  "length (downloads (concat (replicate n (failed_attempt link p)))) = n"
  by (induction n) (simp_all add: downloads_append downloads_failed_attempt, simp add: downloads_def)

lemma check_hash_downloads:
  "check_hash E filename checksum w = (r, w') \<Longrightarrow> downloads (log w') = downloads (log w)"
  using check_hash_extends[of E filename checksum w r w']
    check_hash_emitted[of E filename checksum w r w']
  by (metis append_Nil2 extends_emitted downloads_append reads_no_download)

lemma check_hash_present:
  assumes "split_on CHR '':'' checksum = [algorithm, expected]"
    and "fs w filename = Some bytes"
    and "hashlib_new E algorithm = Some hexdigest"
  shows "fst (check_hash E filename checksum w) = Inr (expected, hexdigest bytes)"
proof -
  obtain h w' where r: "read_loop filename 0 [] w = (h, w')"
    by (cases "read_loop filename 0 [] w")
  from read_loop_frame[OF r] assms(2) have "h = bytes" by (simp add: content_def)
  with assms r show ?thesis by (simp add: check_hash_def)
qed

lemma downloads_emitted:
  "extends w w' \<Longrightarrow> downloads (log w') = downloads (log w) \<Longrightarrow> downloads (emitted w w') = []"
  by (metis append_self_conv downloads_append extends_emitted)

lemma time_sleep_ok: "sleep_ok E p \<Longrightarrow> time_sleep E p w = Inr (emit (Sleep p) w)"
  by (cases p) (simp_all add: time_sleep_def)

lemma time_sleep_Inr: "time_sleep E p w = Inr w' \<Longrightarrow> w' = emit (Sleep p) w"
  by (cases p) (simp_all add: time_sleep_def split: if_splits)

lemma retry_loop_fail_step:
  assumes "sleep_ok E (pause opts)"
    and "wget_download E (length (downloads (log w))) link = None"
  shows "retry_loop E opts link (Suc n) w =
           retry_loop E opts link n (w\<lparr>log := log w @ failed_attempt link (pause opts)\<rparr>)"
  using assms(2) time_sleep_ok[OF assms(1)]
  by (simp add: download_def eprint_def emit_def failed_attempt_def)

lemma retry_loop_fails:
  "n = 0 \<or> sleep_ok E (pause opts) \<Longrightarrow>
   (\<forall>i<n. wget_download E (length (downloads (log w)) + i) link = None) \<Longrightarrow>
   retry_loop E opts link (n + m) w =
     retry_loop E opts link m
       (w\<lparr>log := log w @ concat (replicate n (failed_attempt link (pause opts)))\<rparr>)"
proof (induction n arbitrary: w)
  case 0
  then show ?case by simp
next
  case (Suc n)
  let ?fa = "failed_attempt link (pause opts)"
  let ?w1 = "w\<lparr>log := log w @ ?fa\<rparr>"
  from Suc.prems(1) have ok: "sleep_ok E (pause opts)" by simp
  from Suc.prems(2) have first: "wget_download E (length (downloads (log w))) link = None"
    by (metis add.right_neutral zero_less_Suc)
  have len: "length (downloads (log w @ ?fa)) = Suc (length (downloads (log w)))"
    by (simp add: downloads_append downloads_failed_attempt)
  have rest: "\<forall>i<n. wget_download E (length (downloads (log ?w1)) + i) link = None"
  proof (intro allI impI)
    fix i assume "i < n"
    then have "Suc i < Suc n" by simp
    with Suc.prems(2) have "wget_download E (length (downloads (log w)) + Suc i) link = None"
      by blast
    then show "wget_download E (length (downloads (log ?w1)) + i) link = None"
      by (simp add: len)
  qed
  from ok have "n = 0 \<or> sleep_ok E (pause opts)" by simp
  from Suc.IH[OF this rest]
  have "retry_loop E opts link (n + m) ?w1 =
          retry_loop E opts link m (?w1\<lparr>log := log ?w1 @ concat (replicate n ?fa)\<rparr>)" .
  moreover have "retry_loop E opts link (Suc n + m) w = retry_loop E opts link (n + m) ?w1"
    using retry_loop_fail_step[OF ok first, of "n + m"] by simp
  ultimately show ?case by simp
qed

text \<open>The loop after \<open>j\<close> failed attempts and a successful one.\<close>

lemma retry_loop_succeeds:
  assumes "j = 0 \<or> sleep_ok E (pause opts)"
    and "\<forall>i<j. wget_download E (length (downloads (log w)) + i) link = None"
    and "wget_download E (length (downloads (log w)) + j) link = Some (filename, bytes)"
  shows "retry_loop E opts link (j + Suc m) w =
     (Fetched filename,
      w\<lparr>fs := (fs w)(filename \<mapsto> bytes),
        log := log w @ concat (replicate j (failed_attempt link (pause opts))) @
               [Download link]\<rparr>)"
proof -
  let ?fa = "failed_attempt link (pause opts)"
  have lenj: "length (downloads (log w @ concat (replicate j ?fa))) =
      length (downloads (log w)) + j"
    by (simp add: downloads_append downloads_attempts)
  from retry_loop_fails[OF assms(1,2), of "Suc m"]
  have "retry_loop E opts link (j + Suc m) w =
      retry_loop E opts link (Suc m) (w\<lparr>log := log w @ concat (replicate j ?fa)\<rparr>)" .
  also have "\<dots> = (Fetched filename,
       w\<lparr>fs := (fs w)(filename \<mapsto> bytes),
         log := log w @ concat (replicate j ?fa) @ [Download link]\<rparr>)"
    using assms(3) by (simp add: download_def lenj emit_def)
  finally show ?thesis .
qed

text \<open>
  Claim C5 (as amended). For every link, every retry count \<open>N \<ge> 0\<close> and every pause
  that \<^verbatim>\<open>time.sleep\<close> accepts (a finite float, not negative, within the limit of
  the platform): when all \<open>N + 1\<close> attempts fail, the retry loop ends in its
  \<^verbatim>\<open>else\<close> branch after exactly \<open>N + 1\<close> calls of the download collaborator,
  each followed by the error notice and a sleep of the pause; and when the attempt after
  \<open>j \<le> N\<close> failures succeeds, the loop ends at once with that file, after exactly
  \<open>j + 1\<close> calls.
\<close>

theorem retry_loop_attempts:
  assumes "0 \<le> retry opts" and "sleep_ok E (pause opts)"
  shows
    "((\<forall>i < nat (retry opts) + 1.
          wget_download E (length (downloads (log w)) + i) link = None) \<longrightarrow>
        fst (retry_loop E opts link (nat (retry opts + 1)) w) = Exhausted \<and>
        emitted w (snd (retry_loop E opts link (nat (retry opts + 1)) w)) =
          concat (replicate (nat (retry opts) + 1) (failed_attempt link (pause opts))) \<and>
        length (downloads (emitted w (snd (retry_loop E opts link (nat (retry opts + 1)) w)))) =
          nat (retry opts) + 1) \<and>
     (\<forall>j filename bytes.
        j \<le> nat (retry opts) \<and>
        (\<forall>i < j. wget_download E (length (downloads (log w)) + i) link = None) \<and>
        wget_download E (length (downloads (log w)) + j) link = Some (filename, bytes) \<longrightarrow>
        fst (retry_loop E opts link (nat (retry opts + 1)) w) = Fetched filename \<and>
        emitted w (snd (retry_loop E opts link (nat (retry opts + 1)) w)) =
          concat (replicate j (failed_attempt link (pause opts))) @ [Download link] \<and>
        length (downloads (emitted w (snd (retry_loop E opts link (nat (retry opts + 1)) w)))) =
          j + 1)"
proof (intro conjI allI impI)
  let ?N = "nat (retry opts)"
  let ?fa = "failed_attempt link (pause opts)"
  have n: "nat (retry opts + 1) = ?N + 1" using assms(1) by simp
  from assms(2) have ok: "k = 0 \<or> sleep_ok E (pause opts)" for k :: nat by simp
  {
    assume all: "\<forall>i < ?N + 1. wget_download E (length (downloads (log w)) + i) link = None"
    from retry_loop_fails[OF ok all, of 0]
    have r: "retry_loop E opts link (nat (retry opts + 1)) w =
               (Exhausted, w\<lparr>log := log w @ concat (replicate (?N + 1) ?fa)\<rparr>)"
      by (simp add: n)
    show "fst (retry_loop E opts link (nat (retry opts + 1)) w) = Exhausted"
      by (simp add: r)
    show e: "emitted w (snd (retry_loop E opts link (nat (retry opts + 1)) w)) =
            concat (replicate (?N + 1) ?fa)"
      by (simp add: r emitted_def)
    show "length (downloads (emitted w (snd (retry_loop E opts link (nat (retry opts + 1)) w)))) =
            ?N + 1"
      unfolding e by (rule downloads_attempts)
  }
  fix j filename bytes
  assume h: "j \<le> ?N \<and>
        (\<forall>i < j. wget_download E (length (downloads (log w)) + i) link = None) \<and>
        wget_download E (length (downloads (log w)) + j) link = Some (filename, bytes)"
  from h obtain m where m: "nat (retry opts + 1) = j + Suc m"
    using n by (metis add_Suc_right le_Suc_ex Suc_eq_plus1)
  from h have fails: "\<forall>i < j. wget_download E (length (downloads (log w)) + i) link = None"
    and hit: "wget_download E (length (downloads (log w)) + j) link = Some (filename, bytes)"
    by blast+
  from retry_loop_succeeds[OF ok fails hit, of m]
  have r: "retry_loop E opts link (nat (retry opts + 1)) w = (Fetched filename,
       w\<lparr>fs := (fs w)(filename \<mapsto> bytes),
         log := log w @ concat (replicate j ?fa) @ [Download link]\<rparr>)"
    by (simp add: m)
  show "fst (retry_loop E opts link (nat (retry opts + 1)) w) = Fetched filename"
    by (simp add: r)
  show e: "emitted w (snd (retry_loop E opts link (nat (retry opts + 1)) w)) =
          concat (replicate j ?fa) @ [Download link]"
    by (simp add: r emitted_def)
  show "length (downloads (emitted w (snd (retry_loop E opts link (nat (retry opts + 1)) w)))) =
          j + 1"
    unfolding e by (simp add: downloads_append downloads_attempts, simp add: downloads_def)
qed

theorem retry_loop_attempts_witness:
  "fst (retry_loop E_fail (parse_flags [Retry 2]) ''http://x/a''
          (nat (retry (parse_flags [Retry 2]) + 1)) w_empty) = Exhausted \<and>
   length (downloads (emitted w_empty (snd (retry_loop E_fail (parse_flags [Retry 2])
          ''http://x/a'' (nat (retry (parse_flags [Retry 2]) + 1)) w_empty)))) = 3 \<and>
   fst (retry_loop E_flaky (parse_flags [Retry 2]) ''http://x/a''
          (nat (retry (parse_flags [Retry 2]) + 1)) w_empty) = Fetched ''a.txt'' \<and>
   length (downloads (emitted w_empty (snd (retry_loop E_flaky (parse_flags [Retry 2])
          ''http://x/a'' (nat (retry (parse_flags [Retry 2]) + 1)) w_empty)))) = 3"
proof -
  have o: "0 \<le> retry (parse_flags [Retry 2])"
    "nat (retry (parse_flags [Retry 2])) = 2"
    by (simp_all add: parse_flags_def default_options_def)
  have s: "sleep_ok E_fail (pause (parse_flags [Retry 2]))"
    "sleep_ok E_flaky (pause (parse_flags [Retry 2]))"
    by (simp_all add: parse_flags_def default_options_def E_fail_def E_flaky_def)
  have a: "\<forall>i < nat (retry (parse_flags [Retry 2])) + 1.
      wget_download E_fail (length (downloads (log w_empty)) + i) ''http://x/a'' = None"
    by (simp add: E_fail_def)
  have b: "(2::nat) \<le> nat (retry (parse_flags [Retry 2])) \<and>
     (\<forall>i < 2. wget_download E_flaky (length (downloads (log w_empty)) + i) ''http://x/a'' = None) \<and>
     wget_download E_flaky (length (downloads (log w_empty)) + 2) ''http://x/a''
       = Some (''a.txt'', ''hello'')"
    by (simp add: o E_flaky_def w_empty_def downloads_def)
  note t1 = retry_loop_attempts[OF o(1) s(1), of w_empty "''http://x/a''",
      THEN conjunct1, THEN mp, OF a]
  note t2 = retry_loop_attempts[OF o(1) s(2), of w_empty "''http://x/a''",
      THEN conjunct2, THEN spec, THEN spec, THEN spec, THEN mp, OF b]
  have "(2::nat) + 1 = 3" by simp
  with t1[unfolded o(2), THEN conjunct1] t1[unfolded o(2), THEN conjunct2, THEN conjunct2]
    t2[THEN conjunct1] t2[THEN conjunct2, THEN conjunct2]
  show ?thesis by simp
qed

subsection \<open>Frame lemmas for the retry loop\<close>

lemma download_extends: "download E link w = (r, w') \<Longrightarrow> extends w w'"
  by (auto simp: download_def extends_iff emit_def split: option.splits)

text \<open>The three ways in which an iteration of the retry loop goes on.\<close>

lemma retry_loop_Suc:
  assumes "retry_loop E opts link (Suc n) w = (r, w')"
  obtains
    (fetched) fn b where "wget_download E (length (downloads (log w))) link = Some (fn, b)"
      "r = Fetched fn" "w' = emit (Download link) (w\<lparr>fs := (fs w)(fn \<mapsto> b)\<rparr>)"
  | (raised) e where "r = Raised e" "w' = eprint DownloadError (emit (Download link) w)"
  | (again) "retry_loop E opts link n
        (emit (Sleep (pause opts)) (eprint DownloadError (emit (Download link) w))) = (r, w')"
proof (cases "wget_download E (length (downloads (log w))) link")
  case None
  let ?w2 = "eprint DownloadError (emit (Download link) w)"
  show ?thesis
  proof (cases "time_sleep E (pause opts) ?w2")
    case (Inl e)
    with None assms have "r = Raised e" "w' = ?w2" by (simp_all add: download_def)
    then show ?thesis by (rule raised)
  next
    case (Inr w3)
    then have "w3 = emit (Sleep (pause opts)) ?w2" by (rule time_sleep_Inr)
    with None assms Inr show ?thesis by (intro again) (simp add: download_def)
  qed
next
  case (Some p)
  obtain fn b where "p = (fn, b)" by (cases p)
  with Some assms show ?thesis by (intro fetched[of fn b]) (simp_all add: download_def)
qed

lemma retry_loop_extends: "retry_loop E opts link n w = (r, w') \<Longrightarrow> extends w w'"
proof (induction n arbitrary: w)
  case 0
  then show ?case by (simp add: extends_refl)
next
  case (Suc n)
  from Suc.prems show ?case
  proof (cases rule: retry_loop_Suc)
    case (fetched fn b)
    then show ?thesis by (simp add: extends_iff emit_def)
  next
    case (raised e)
    then show ?thesis by (simp add: extends_iff emit_def eprint_def)
  next
    case again
    from Suc.IH[OF again] show ?thesis by (auto simp: extends_iff emit_def eprint_def)
  qed
qed


text \<open>A file name under which the collaborator never saves keeps its file.\<close>

lemma retry_loop_fs_other:
  assumes "\<forall>k l fn b. wget_download E k l = Some (fn, b) \<longrightarrow> fn \<noteq> name"
  shows "retry_loop E opts link n w = (r, w') \<Longrightarrow> fs w' name = fs w name \<and> r \<noteq> Fetched name"
proof (induction n arbitrary: w)
  case 0
  then show ?case by simp
next
  case (Suc n)
  from Suc.prems show ?case
  proof (cases rule: retry_loop_Suc)
    case (fetched fn b)
    with assms have "fn \<noteq> name" by blast
    with fetched show ?thesis by (simp add: emit_def)
  next
    case (raised e)
    then show ?thesis by (simp add: emit_def eprint_def)
  next
    case again
    from Suc.IH[OF again] show ?thesis by (simp add: emit_def eprint_def)
  qed
qed

subsection \<open>Frame lemmas for the check after a download\<close>

lemma fs_eprint: "fs (eprint n w) = fs w"
  by (simp add: eprint_def emit_def)

lemma downloads_eprint: "downloads (log (eprint n w)) = downloads (log w)"
  by (simp add: eprint_def emit_def downloads_def)

text \<open>The branches of the check, given what \<^verbatim>\<open>check_hash\<close> returns.\<close>

lemma post_check_unfold:
  assumes "check_hash E filename checksum (eprint Blank w) = (r, w1)"
  shows "post_check E opts filename checksum w =
    (case r of
       Inl e \<Rightarrow> (Stop (Uncaught e), w1)
     | Inr (h1, h2) \<Rightarrow>
         if h1 = h2 then (Next, eprint (ChecksumCorrect h1) w1)
         else if keep opts then
           (if \<not> error opts then Stop (SysExit 1) else Next,
            eprint FileNotDeleted (eprint (ChecksumIncorrect h1 h2) w1))
         else if fs w1 filename = None then
           (Stop (Uncaught FileNotFoundError),
            eprint FileDeleted (eprint (ChecksumIncorrect h1 h2) w1))
         else
           (if \<not> error opts then Stop (SysExit 1) else Next,
            emit (Remove filename)
              ((eprint FileDeleted (eprint (ChecksumIncorrect h1 h2) w1))
                 \<lparr>fs := (fs w1)(filename := None)\<rparr>)))"
  using assms
  by (auto simp: post_check_def os_remove_def fs_eprint Let_def split: sum.splits)

lemma post_check_extends:
  assumes "post_check E opts filename checksum w = (sig, w')"
  shows "extends w w'"
proof -
  obtain r w1 where c: "check_hash E filename checksum (eprint Blank w) = (r, w1)"
    by (cases "check_hash E filename checksum (eprint Blank w)")
  from check_hash_extends[OF c] obtain es where
    "log w1 = log w @ EPrint Blank # es"
    by (auto simp: extends_iff eprint_def emit_def)
  with assms post_check_unfold[OF c, of opts] show ?thesis
    by (auto simp: extends_iff eprint_def emit_def split: sum.splits if_splits)
qed

lemma post_check_fs_other:
  assumes "filename \<noteq> name" and "post_check E opts filename checksum w = (sig, w')"
  shows "fs w' name = fs w name"
proof -
  obtain r w1 where c: "check_hash E filename checksum (eprint Blank w) = (r, w1)"
    by (cases "check_hash E filename checksum (eprint Blank w)")
  from check_hash_fs[OF c] have "fs w1 = fs w" by (simp add: fs_eprint)
  with assms post_check_unfold[OF c, of opts] show ?thesis
    by (auto simp: eprint_def emit_def split: sum.splits if_splits)
qed

text \<open>The check of a file whose digest differs from the expected one, continue-on-error
  unset: the notice, the file deleted or kept, and \<^verbatim>\<open>sys.exit(1)\<close>.\<close>

lemma post_check_detects:
  assumes "\<not> error opts"
    and "split_on CHR '':'' checksum = [algorithm, expected]"
    and "fs w filename = Some bytes"
    and "hashlib_new E algorithm = Some hexdigest"
    and "hexdigest bytes \<noteq> expected"
  obtains w' where "post_check E opts filename checksum w = (Stop (SysExit 1), w')"
    and "extends w w'"
    and "EPrint (ChecksumIncorrect expected (hexdigest bytes)) \<in> set (emitted w w')"
    and "fs w' filename = (if keep opts then Some bytes else None)"
    and "downloads (log w') = downloads (log w)"
proof -
  obtain r w1 where c: "check_hash E filename checksum (eprint Blank w) = (r, w1)"
    by (cases "check_hash E filename checksum (eprint Blank w)")
  have "fs (eprint Blank w) filename = Some bytes" using assms(3) by (simp add: fs_eprint)
  from check_hash_present[OF assms(2) this assms(4)] c
  have r: "r = Inr (expected, hexdigest bytes)" by simp
  have f1: "fs w1 = fs w" using check_hash_fs[OF c] by (simp add: fs_eprint)
  have d1: "downloads (log w1) = downloads (log w)"
    using check_hash_downloads[OF c] by (simp add: downloads_eprint)
  from check_hash_extends[OF c] obtain es where l1: "log w1 = log w @ EPrint Blank # es"
    by (auto simp: extends_iff eprint_def emit_def)
  let ?w2 = "eprint (ChecksumIncorrect expected (hexdigest bytes)) w1"
  let ?w' = "if keep opts then eprint FileNotDeleted ?w2
             else emit (Remove filename) ((eprint FileDeleted ?w2)\<lparr>fs := (fs w1)(filename := None)\<rparr>)"
  have p: "post_check E opts filename checksum w = (Stop (SysExit 1), ?w')"
    using post_check_unfold[OF c, of opts] r assms(1,3,5) f1 by auto
  moreover have "extends w ?w'"
    using l1 by (simp add: extends_iff eprint_def emit_def)
  moreover have "EPrint (ChecksumIncorrect expected (hexdigest bytes)) \<in> set (emitted w ?w')"
    using l1 by (simp add: emitted_def eprint_def emit_def)
  moreover have "fs ?w' filename = (if keep opts then Some bytes else None)"
    using f1 assms(3) by (simp add: eprint_def emit_def)
  moreover have "downloads (log ?w') = downloads (log w)"
    using d1 by (simp add: eprint_def emit_def downloads_def)
  ultimately show ?thesis using that by blast
qed

subsection \<open>Frame lemmas for one iteration and for the loop\<close>

text \<open>The path of an iteration that reaches the first checksum verification.\<close>

lemma process_file_cases:
  assumes p: "process_file E opts f w = (sig, w')"
  obtains
    (early) "extends w w'" "fs w' = fs w"
      "\<exists>e. sig = Stop (Uncaught e)" "downloads (log w') = downloads (log w)"
  | (checked) link sz fname checksum r w2 where
      "link_of f = Inr link" "f_size f = Some sz" "f_key f = Some fname"
      "f_checksum f = Some checksum"
      "check_hash E fname checksum (eprint (LinkSize link sz) (eprint Blank w)) = (r, w2)"
proof (cases "link_of f")
  case (Inl e)
  with p have "sig = Stop (Uncaught e)" "w' = w" by (simp_all add: process_file_def)
  then show ?thesis using early by (simp add: extends_refl)
next
  case l: (Inr link)
  show ?thesis
  proof (cases "f_size f")
    case None
    with p l have "sig = Stop (Uncaught (KeyError ''size''))" "w' = w"
      by (simp_all add: process_file_def getitem_def)
    then show ?thesis using early by (simp add: extends_refl)
  next
    case s: (Some sz)
    let ?w1 = "eprint (LinkSize link sz) (eprint Blank w)"
    have e1: "extends w ?w1" by (meson extends_trans extends_eprint)
    have f1: "fs ?w1 = fs w" by (simp add: fs_eprint)
    have d1: "downloads (log ?w1) = downloads (log w)" by (simp add: downloads_eprint)
    show ?thesis
    proof (cases "f_key f")
      case None
      with p l s have "sig = Stop (Uncaught (KeyError ''key''))" "w' = ?w1"
        by (simp_all add: process_file_def getitem_def Let_def)
      then show ?thesis using early e1 f1 d1 by simp
    next
      case k: (Some fname)
      show ?thesis
      proof (cases "f_checksum f")
        case None
        with p l s k have "sig = Stop (Uncaught (KeyError ''checksum''))" "w' = ?w1"
          by (simp_all add: process_file_def getitem_def Let_def)
        then show ?thesis using early e1 f1 d1 by simp
      next
        case c: (Some checksum)
        obtain r w2 where "check_hash E fname checksum ?w1 = (r, w2)"
          by (cases "check_hash E fname checksum ?w1")
        with l s k c show ?thesis using checked by blast
      qed
    qed
  qed
qed

lemma process_file_unfold:
  assumes "link_of f = Inr link" "f_size f = Some sz" "f_key f = Some fname"
    "f_checksum f = Some checksum"
    "check_hash E fname checksum (eprint (LinkSize link sz) (eprint Blank w)) = (r, w2)"
  shows "process_file E opts f w =
    (case r of
       Inl e \<Rightarrow> (Stop (Uncaught e), w2)
     | Inr (remote_hash, local_hash) \<Rightarrow>
         if remote_hash = local_hash \<and> cont opts
         then (Next, eprint (AlreadyDownloaded fname) w2)
         else
           (case retry_loop E opts link (nat (retry opts + 1)) w2 of
              (Raised e, w3) \<Rightarrow> (Stop (Uncaught e), w3)
            | (Exhausted, w3) \<Rightarrow>
                if \<not> error opts then (Stop (SysExit 0), eprint TooManyAborted w3)
                else (Next, eprint TooManyContinues w3)
            | (Fetched filename, w3) \<Rightarrow> post_check E opts filename checksum w3))"
  using assms by (simp add: process_file_def getitem_def Let_def)

lemma process_file_extends:
  assumes p: "process_file E opts f w = (sig, w')"
  shows "extends w w'"
  using p
proof (cases rule: process_file_cases)
  case early
  then show ?thesis by simp
next
  case (checked link sz fname checksum r w2)
  let ?w1 = "eprint (LinkSize link sz) (eprint Blank w)"
  have e2: "extends w w2"
    by (meson extends_trans extends_eprint check_hash_extends[OF checked(5)])
  note u = process_file_unfold[OF checked, of opts]
  show ?thesis
  proof (cases r)
    case (Inl e)
    with u p have "w' = w2" by simp
    with e2 show ?thesis by simp
  next
    case (Inr hs)
    obtain rh lh where hs: "hs = (rh, lh)" by (cases hs)
    show ?thesis
    proof (cases "rh = lh \<and> cont opts")
      case True
      with u p Inr hs have "w' = eprint (AlreadyDownloaded fname) w2" by simp
      with e2 show ?thesis by (meson extends_trans extends_eprint)
    next
      case False
      obtain a w3 where rl: "retry_loop E opts link (nat (retry opts + 1)) w2 = (a, w3)"
        by (cases "retry_loop E opts link (nat (retry opts + 1)) w2")
      have e3: "extends w w3" by (meson e2 extends_trans retry_loop_extends[OF rl])
      show ?thesis
      proof (cases a)
        case (Fetched filename)
        with u p Inr hs False rl have "post_check E opts filename checksum w3 = (sig, w')"
          by auto
        from post_check_extends[OF this] e3 show ?thesis by (meson extends_trans)
      next
        case Exhausted
        with u p Inr hs False rl
        have "w' = eprint TooManyAborted w3 \<or> w' = eprint TooManyContinues w3"
          by (auto split: if_splits)
        with e3 show ?thesis by (meson extends_trans extends_eprint)
      next
        case (Raised e)
        with u p Inr hs False rl have "w' = w3" by auto
        with e3 show ?thesis by simp
      qed
    qed
  qed
qed

lemma process_file_fs_other:
  assumes ns: "\<forall>k l fn b. wget_download E k l = Some (fn, b) \<longrightarrow> fn \<noteq> name"
    and p: "process_file E opts f w = (sig, w')"
  shows "fs w' name = fs w name"
  using p
proof (cases rule: process_file_cases)
  case early
  then show ?thesis by simp
next
  case (checked link sz fname checksum r w2)
  have f2: "fs w2 = fs w" using check_hash_fs[OF checked(5)] by (simp add: fs_eprint)
  note u = process_file_unfold[OF checked, of opts]
  show ?thesis
  proof (cases r)
    case (Inl e)
    with u p f2 show ?thesis by simp
  next
    case (Inr hs)
    obtain rh lh where hs: "hs = (rh, lh)" by (cases hs)
    show ?thesis
    proof (cases "rh = lh \<and> cont opts")
      case True
      with u p Inr hs f2 show ?thesis by (auto simp: fs_eprint)
    next
      case False
      obtain a w3 where rl: "retry_loop E opts link (nat (retry opts + 1)) w2 = (a, w3)"
        by (cases "retry_loop E opts link (nat (retry opts + 1)) w2")
      note fr = retry_loop_fs_other[OF ns rl]
      show ?thesis
      proof (cases a)
        case (Fetched filename)
        with u p Inr hs False rl have pc: "post_check E opts filename checksum w3 = (sig, w')"
          by auto
        from fr Fetched have "filename \<noteq> name" by auto
        from post_check_fs_other[OF this pc] fr f2 show ?thesis by simp
      next
        case Exhausted
        with u p Inr hs False rl
        have "w' = eprint TooManyAborted w3 \<or> w' = eprint TooManyContinues w3"
          by (auto split: if_splits)
        with fr f2 show ?thesis by (auto simp: fs_eprint)
      next
        case (Raised e)
        with u p Inr hs False rl have "w' = w3" by auto
        with fr f2 show ?thesis by simp
      qed
    qed
  qed
qed

lemma for_files_append:
  "for_files E opts (xs @ ys) w =
     (case for_files E opts xs w of
        (Some out, w') \<Rightarrow> (Some out, w')
      | (None, w') \<Rightarrow> for_files E opts ys w')"
  by (induction xs arbitrary: w) (auto split: prod.splits signal.splits)

lemma for_files_fs_other:
  assumes ns: "\<forall>k l fn b. wget_download E k l = Some (fn, b) \<longrightarrow> fn \<noteq> name"
  shows "for_files E opts files w = (r, w') \<Longrightarrow> fs w' name = fs w name"
proof (induction files arbitrary: w)
  case Nil
  then show ?case by simp
next
  case (Cons f files)
  obtain sig w1 where p: "process_file E opts f w = (sig, w1)"
    by (cases "process_file E opts f w")
  note f1 = process_file_fs_other[OF ns p]
  show ?case
  proof (cases sig)
    case Next
    with Cons.prems p have "for_files E opts files w1 = (r, w')" by simp
    from Cons.IH[OF this] f1 show ?thesis by simp
  next
    case (Stop out)
    with Cons.prems p have "w' = w1" by simp
    with f1 show ?thesis by simp
  qed
qed

subsection \<open>The download loop\<close>

text \<open>
  Claim C4. With continue-on-error unset: when the earlier files of the manifest have not
  ended the run, the file is not skipped by the check before the download, an attempt of
  the retry loop succeeds, and the digest of the bytes it saved differs from the expected
  digest, then the script prints the notice of the incorrect checksum, deletes the file
  (or keeps it with \<^verbatim>\<open>--keep\<close>) and ends the run with \<^verbatim>\<open>sys.exit(1)\<close>. The
  loop over the whole manifest ends in the world that this iteration left: no later file
  is attempted, and the only calls of the download collaborator in the iteration are the
  attempts for this file.
\<close>

theorem checksum_mismatch_aborts:
  assumes "\<not> error opts"
    and "for_files E opts pre w = (None, w1)"
    and "link_of f = Inr link" and "f_size f = Some sz" and "f_key f = Some fname"
    and "f_checksum f = Some checksum"
    and "split_on CHR '':'' checksum = [algorithm, expected]"
    and "hashlib_new E algorithm = Some hexdigest"
    and "\<not> (cont opts \<and>
            (case fs w1 fname of None \<Rightarrow> ''invalid'' | Some present \<Rightarrow> hexdigest present) = expected)"
    and "0 \<le> retry opts" and "j \<le> nat (retry opts)"
    and "j = 0 \<or> sleep_ok E (pause opts)"
    and "\<forall>i<j. wget_download E (length (downloads (log w1)) + i) link = None"
    and "wget_download E (length (downloads (log w1)) + j) link = Some (filename, bytes)"
    and "hexdigest bytes \<noteq> expected"
  shows "fst (for_files E opts (pre @ f # rest) w) = Some (SysExit 1) \<and>
         snd (for_files E opts (pre @ f # rest) w) = snd (process_file E opts f w1) \<and>
         EPrint (ChecksumIncorrect expected (hexdigest bytes))
           \<in> set (emitted w1 (snd (process_file E opts f w1))) \<and>
         fs (snd (process_file E opts f w1)) filename = (if keep opts then Some bytes else None) \<and>
         length (downloads (log (snd (process_file E opts f w1)))) =
           length (downloads (log w1)) + j + 1"
proof -
  let ?w1a = "eprint (LinkSize link sz) (eprint Blank w1)"
  let ?local = "case fs w1 fname of None \<Rightarrow> ''invalid'' | Some present \<Rightarrow> hexdigest present"
  obtain r0 w2 where c0: "check_hash E fname checksum ?w1a = (r0, w2)"
    by (cases "check_hash E fname checksum ?w1a")
  have r0: "r0 = Inr (expected, ?local)"
  proof (cases "fs w1 fname")
    case None
    then have "check_hash E fname checksum ?w1a = (Inr (expected, ''invalid''), ?w1a)"
      using assms(7) by (simp add: check_hash_def fs_eprint)
    with c0 None show ?thesis by simp
  next
    case (Some present)
    then have "fs ?w1a fname = Some present" by (simp add: fs_eprint)
    from check_hash_present[OF assms(7) this assms(8)] c0 Some show ?thesis by simp
  qed
  have f2: "fs w2 = fs w1" using check_hash_fs[OF c0] by (simp add: fs_eprint)
  have d2: "downloads (log w2) = downloads (log w1)"
    using check_hash_downloads[OF c0] by (simp add: downloads_eprint)
  have e2: "extends w1 w2"
    by (meson extends_trans extends_eprint check_hash_extends[OF c0])
  let ?fa = "failed_attempt link (pause opts)"
  let ?w3 = "w2\<lparr>fs := (fs w2)(filename \<mapsto> bytes),
                log := log w2 @ concat (replicate j ?fa) @ [Download link]\<rparr>"
  from assms(11) obtain m where "nat (retry opts) = j + m"
    by (auto simp: le_iff_add)
  with assms(10) have m: "nat (retry opts + 1) = j + Suc m" by simp
  have rl: "retry_loop E opts link (nat (retry opts + 1)) w2 = (Fetched filename, ?w3)"
    using retry_loop_succeeds[of j E opts w2 link filename bytes m] assms(12,13,14)
    by (simp add: d2 m)
  have e3: "extends w2 ?w3" by (simp add: extends_iff)
  have d3: "length (downloads (log ?w3)) = length (downloads (log w1)) + j + 1"
    by (simp add: downloads_append downloads_attempts d2, simp add: downloads_def)
  have "fs ?w3 filename = Some bytes" by simp
  from post_check_detects[OF assms(1,7) this assms(8,15)]
  obtain w4 where pc: "post_check E opts filename checksum ?w3 = (Stop (SysExit 1), w4)"
    and e4: "extends ?w3 w4"
    and n4: "EPrint (ChecksumIncorrect expected (hexdigest bytes)) \<in> set (emitted ?w3 w4)"
    and f4: "fs w4 filename = (if keep opts then Some bytes else None)"
    and d4: "downloads (log w4) = downloads (log ?w3)"
    by blast
  have p: "process_file E opts f w1 = (Stop (SysExit 1), w4)"
    using process_file_unfold[OF assms(3-6) c0, of opts] r0 assms(9) rl pc by auto
  have "extends w1 ?w3" using e2 e3 by (rule extends_trans)
  from emitted_trans[OF this e4] n4
  have n: "EPrint (ChecksumIncorrect expected (hexdigest bytes)) \<in> set (emitted w1 w4)"
    by simp
  have "for_files E opts (pre @ f # rest) w = (Some (SysExit 1), w4)"
    using assms(2) p by (simp add: for_files_append)
  with p n f4 d4 d3 show ?thesis by simp
qed

theorem checksum_mismatch_aborts_witness:
  "fst (for_files E_bad default_options
     [entry 5 ''a.txt'' ''md5:5d41'' ''http://x/a'', entry 7 ''b.txt'' ''md5:0000'' ''http://x/b'']
     w_empty) = Some (SysExit 1) \<and>
   EPrint (ChecksumIncorrect ''5d41'' ''0000'')
     \<in> set (emitted w_empty (snd (process_file E_bad default_options
           (entry 5 ''a.txt'' ''md5:5d41'' ''http://x/a'') w_empty))) \<and>
   fs (snd (process_file E_bad default_options
           (entry 5 ''a.txt'' ''md5:5d41'' ''http://x/a'') w_empty)) ''a.txt'' = None"
proof -
  let ?f = "entry 5 ''a.txt'' ''md5:5d41'' ''http://x/a''"
  have 1: "\<not> error default_options" "\<not> keep default_options" "0 \<le> retry default_options"
    "(0::nat) \<le> nat (retry default_options)"
    by (simp_all add: default_options_def)
  have 2: "for_files E_bad default_options [] w_empty = (None, w_empty)" by simp
  have 3: "link_of ?f = Inr ''http://x/a''" "f_size ?f = Some 5" "f_key ?f = Some ''a.txt''"
    "f_checksum ?f = Some ''md5:5d41''"
    by (simp_all add: entry_def link_of_def getitem_def)
  have 4: "split_on CHR '':'' ''md5:5d41'' = [''md5'', ''5d41'']" by (simp add: Let_def)
  have 5: "hashlib_new E_bad ''md5'' = Some toy_digest" by (simp add: E_bad_def toy_hashlib_def)
  have 6: "\<not> (cont default_options \<and>
      (case fs w_empty ''a.txt'' of None \<Rightarrow> ''invalid'' | Some present \<Rightarrow> toy_digest present)
        = ''5d41'')"
    by (simp add: w_empty_def)
  have 7: "(0::nat) = 0 \<or> sleep_ok E_bad (pause default_options)" by simp
  have 8: "\<forall>i<(0::nat). wget_download E_bad (length (downloads (log w_empty)) + i) ''http://x/a''
      = None" by simp
  have 9: "wget_download E_bad (length (downloads (log w_empty)) + 0) ''http://x/a''
      = Some (''a.txt'', ''junk'')" by (simp add: E_bad_def)
  have 10: "toy_digest ''junk'' \<noteq> ''5d41''" by (simp add: toy_digest_def)
  from checksum_mismatch_aborts[OF 1(1) 2 3 4 5 6 1(3) 1(4) 7 8 9 10,
      of "[entry 7 ''b.txt'' ''md5:0000'' ''http://x/b'']"] 1(2)
  show ?thesis by (simp add: toy_digest_def)
qed


text \<open>
  Claim C6. In continue mode, for a file that is present locally and whose computed digest
  equals the expected digest, the iteration of the loop ends at once with the next file:
  it calls the download collaborator not at all and leaves the files as they are.
\<close>

theorem valid_file_is_skipped:
  assumes "cont opts"
    and "link_of f = Inr link" and "f_size f = Some sz" and "f_key f = Some fname"
    and "f_checksum f = Some checksum"
    and "split_on CHR '':'' checksum = [algorithm, expected]"
    and "fs w fname = Some bytes"
    and "hashlib_new E algorithm = Some hexdigest"
    and "hexdigest bytes = expected"
  shows "fst (process_file E opts f w) = Next \<and>
         fs (snd (process_file E opts f w)) = fs w \<and>
         downloads (emitted w (snd (process_file E opts f w))) = []"
proof -
  let ?w1 = "eprint (LinkSize link sz) (eprint Blank w)"
  obtain r w2 where c: "check_hash E fname checksum ?w1 = (r, w2)"
    by (cases "check_hash E fname checksum ?w1")
  have "fs ?w1 fname = Some bytes" using assms(7) by (simp add: fs_eprint)
  from check_hash_present[OF assms(6) this assms(8)] c assms(9)
  have r: "r = Inr (expected, expected)" by simp
  have p: "process_file E opts f w = (Next, eprint (AlreadyDownloaded fname) w2)"
    using process_file_unfold[OF assms(2-5) c, of opts] r assms(1) by simp
  have "fs w2 = fs w" using check_hash_fs[OF c] by (simp add: fs_eprint)
  moreover have "downloads (log (eprint (AlreadyDownloaded fname) w2)) = downloads (log w)"
    using check_hash_downloads[OF c] by (simp add: eprint_def emit_def downloads_def)
  moreover have "extends w (eprint (AlreadyDownloaded fname) w2)"
    using process_file_extends[OF p] .
  ultimately show ?thesis by (simp add: p fs_eprint downloads_emitted)
qed

theorem valid_file_is_skipped_witness:
  "fst (process_file E_ok default_options (entry 5 ''a.txt'' ''md5:5d41'' ''http://x/a'') w_hello)
     = Next \<and>
   downloads (emitted w_hello
     (snd (process_file E_ok default_options (entry 5 ''a.txt'' ''md5:5d41'' ''http://x/a'') w_hello)))
     = []"
proof -
  let ?f = "entry 5 ''a.txt'' ''md5:5d41'' ''http://x/a''"
  have 1: "cont default_options" by (simp add: default_options_def)
  have 2: "link_of ?f = Inr ''http://x/a''" by (simp add: link_of_def entry_def getitem_def)
  have 3: "f_size ?f = Some 5" "f_key ?f = Some ''a.txt''" "f_checksum ?f = Some ''md5:5d41''"
    by (simp_all add: entry_def)
  have 4: "split_on CHR '':'' ''md5:5d41'' = [''md5'', ''5d41'']" by (simp add: Let_def)
  have 5: "fs w_hello ''a.txt'' = Some ''hello''" by (simp add: w_hello_def)
  have 6: "hashlib_new E_ok ''md5'' = Some toy_digest" by (simp add: E_ok_def toy_hashlib_def)
  have 7: "toy_digest ''hello'' = ''5d41''" by (simp add: toy_digest_def)
  from valid_file_is_skipped[OF 1 2 3 4 5 6 7] show ?thesis by simp
qed

subsection \<open>Runs of the script at concrete inputs\<close>

text \<open>
  Claim C3: when all attempts for a file are exhausted and continue-on-error is unset,
  the run stops and its exit status is not zero. The script run with its default options
  on a manifest of two files, every download failing: it stops after the one attempt for
  the first file and never tries the second, as the claim says, but it stops by
  \<^verbatim>\<open>sys.exit(0)\<close> (line 223), so the exit status is 0. The sibling path for
  an incorrect checksum (line 240) exits with 1.
\<close>

theorem retry_exhaustion_exits_zero:
  "fst (main_body E_fail (parse_flags []) ''1'' w_empty) = SysExit 0 \<and>
   exit_status (fst (main_body E_fail (parse_flags []) ''1'' w_empty)) = 0 \<and>
   downloads (log (snd (main_body E_fail (parse_flags []) ''1'' w_empty))) =
     [Download ''http://x/a'']"
  by code_simp

text \<open>
  Claim C5, as stated for every configuration, fails for a pause that
  \<^verbatim>\<open>time.sleep\<close> refuses. With \<^verbatim>\<open>--retry 1 --pause -1\<close> and every download
  failing, \<^verbatim>\<open>time.sleep\<close> raises in the handler of the first failed attempt: the
  collaborator is called once, not twice, the \<^verbatim>\<open>else\<close> branch of the loop is not
  reached, and the exception ends the run. The same happens with a pause beyond the limit
  of the platform (\<^verbatim>\<open>--pause 1e10\<close>), an infinite one and one that is not a
  number.
\<close>

theorem negative_pause_counterexample:
  "retry (parse_flags [Retry 1, Pause (Finite (- 1))]) = 1 \<and>
   fst (retry_loop E_fail (parse_flags [Retry 1, Pause (Finite (- 1))]) ''http://x/a''
          (nat (retry (parse_flags [Retry 1, Pause (Finite (- 1))]) + 1)) w_empty) =
     Raised ValueError \<and>
   downloads (log (snd (retry_loop E_fail (parse_flags [Retry 1, Pause (Finite (- 1))])
          ''http://x/a''
          (nat (retry (parse_flags [Retry 1, Pause (Finite (- 1))]) + 1)) w_empty))) =
     [Download ''http://x/a''] \<and>
   fst (main_body E_fail (parse_flags [Retry 1, Pause (Finite (- 1))]) ''1'' w_empty) =
     Uncaught ValueError \<and>
   downloads (log (snd (main_body E_fail (parse_flags [Retry 1, Pause (Finite (- 1))]) ''1''
          w_empty))) =
     [Download ''http://x/a''] \<and>
   fst (main_body E_fail (parse_flags [Retry 1, Pause (Finite 10000000000)]) ''1'' w_empty) =
     Uncaught OverflowError \<and>
   downloads (log (snd (main_body E_fail (parse_flags [Retry 1, Pause (Finite 10000000000)])
          ''1'' w_empty))) =
     [Download ''http://x/a''] \<and>
   fst (main_body E_fail (parse_flags [Retry 1, Pause PosInf]) ''1'' w_empty) =
     Uncaught OverflowError \<and>
   fst (main_body E_fail (parse_flags [Retry 1, Pause NaN]) ''1'' w_empty) =
     Uncaught ValueError"
  by code_simp

subsection \<open>The steps before the download loop\<close>

lemma md5_parse_flags: "md5 (parse_flags flags) \<noteq> None"
proof -
  have "md5 opts \<noteq> None \<Longrightarrow> md5 (foldl set_flag opts flags) \<noteq> None" for opts
  proof (induction flags arbitrary: opts)
    case Nil
    then show ?case by simp
  next
    case (Cons x xs)
    have "md5 (set_flag opts x) \<noteq> None" using Cons.prems by (cases x) simp_all
    from Cons.IH[OF this] show ?case by simp
  qed
  from this[of default_options] show ?thesis
    by (simp add: parse_flags_def default_options_def)
qed

lemma sum_sizes_ok: "list_all has_fields files \<Longrightarrow> \<exists>t. sum_sizes acc files = Inr t"
  by (induction files arbitrary: acc) (auto simp: has_fields_def getitem_def)

text \<open>The line that the script writes is the line of the specification.\<close>

lemma md5_line_spec:
  "md5_line checksum fname = digest_part checksum @ [CHR 0x20, CHR 0x20] @ fname @ [CHR 0x0A]"
  by (simp add: md5_line_def digest_part_def last_split_on)

lemma md5_lines_ok:
  "list_all has_fields files \<Longrightarrow> md5_lines out files = (None, out @ md5sums_text files)"
  by (induction files arbitrary: out) (auto simp: has_fields_def getitem_def md5_line_spec)

lemma sum_sizes_total:
  "list_all has_fields files \<Longrightarrow> sum_sizes acc files = Inr (acc + declared_total files)"
  by (induction files arbitrary: acc) (auto simp: has_fields_def getitem_def declared_total_def)

lemma sum_sizes_err:
  "\<not> list_all (\<lambda>f. f_size f \<noteq> None) files \<Longrightarrow> sum_sizes acc files = Inl (KeyError ''size'')"
  by (induction files arbitrary: acc) (auto simp: getitem_def split: option.splits)

lemma sum_sizes_ok': "list_all (\<lambda>f. f_size f \<noteq> None) files \<Longrightarrow> \<exists>t. sum_sizes acc files = Inr t"
  by (induction files arbitrary: acc) (auto simp: getitem_def)

lemma md5_lines_err:
  "\<not> list_all (\<lambda>f. f_key f \<noteq> None \<and> f_checksum f \<noteq> None) files \<Longrightarrow>
     \<exists>k out'. md5_lines out files = (Some (KeyError k), out')"
  by (induction files arbitrary: out) (auto simp: getitem_def split: option.splits)

lemma extends_write_file: "extends w (write_file name text w)"
  by (simp add: write_file_def extends_iff emit_def)

lemma emitted_write_file: "emitted w (write_file name text w) = [FWrite name text]"
  by (simp add: write_file_def emitted_def emit_def)

lemma print_links_frame:
  "print_links files w = (r, w') \<Longrightarrow>
     extends w w' \<and> downloads (log w') = downloads (log w) \<and>
     filter is_notice (log w') = filter is_notice (log w)"
proof (induction files arbitrary: w)
  case Nil
  then show ?case by (simp add: extends_refl)
next
  case (Cons f files)
  show ?case
  proof (cases "link_of f")
    case (Inl e)
    with Cons.prems show ?thesis by (simp add: extends_refl)
  next
    case (Inr link)
    with Cons.prems have "print_links files (emit (Print link) w) = (r, w')" by simp
    from Cons.IH[OF this] show ?thesis
      by (auto simp: emit_def downloads_def extends_iff)
  qed
qed

lemma write_links_frame:
  "write_links target files w = (r, w') \<Longrightarrow>
     extends w w' \<and> downloads (log w') = downloads (log w) \<and>
     filter is_notice (log w') = filter is_notice (log w)"
  by (auto simp: write_links_def extends_iff write_file_def emit_def downloads_def
           split: if_splits prod.splits dest: print_links_frame)

lemma print_links_err:
  "\<not> list_all has_link files \<Longrightarrow> \<exists>k w'. print_links files w = (Some (KeyError k), w')"
proof (induction files arbitrary: w)
  case Nil
  then show ?case by simp
next
  case (Cons f files)
  show ?case
  proof (cases "link_of f")
    case (Inl e)
    then obtain k where "e = KeyError k"
      by (auto simp: link_of_def getitem_def split: option.splits sum.splits)
    with Inl show ?thesis by simp
  next
    case (Inr link)
    then have "has_link f" by (simp add: has_link_def)
    with Cons.prems have "\<not> list_all has_link files" by simp
    from Cons.IH[OF this] Inr show ?thesis by simp
  qed
qed

lemma link_lines_err:
  "\<not> list_all has_link files \<Longrightarrow> \<exists>k out'. link_lines out files = (Some (KeyError k), out')"
proof (induction files arbitrary: out)
  case Nil
  then show ?case by simp
next
  case (Cons f files)
  show ?case
  proof (cases "link_of f")
    case (Inl e)
    then obtain k where "e = KeyError k"
      by (auto simp: link_of_def getitem_def split: option.splits sum.splits)
    with Inl show ?thesis by simp
  next
    case (Inr link)
    then have "has_link f" by (simp add: has_link_def)
    with Cons.prems have "\<not> list_all has_link files" by simp
    from Cons.IH[OF this] Inr show ?thesis by simp
  qed
qed

lemma write_links_err:
  "\<not> list_all has_link files \<Longrightarrow> \<exists>k w'. write_links target files w = (Some (KeyError k), w')"
proof (cases "target = ''-''")
  case True
  assume "\<not> list_all has_link files"
  from print_links_err[OF this, of w] True show ?thesis by (simp add: write_links_def)
next
  case False
  assume "\<not> list_all has_link files"
  from link_lines_err[OF this, of "[]"] False show ?thesis by (auto simp: write_links_def)
qed

lemma for_files_extends: "for_files E opts files w = (r, w') \<Longrightarrow> extends w w'"
proof (induction files arbitrary: w)
  case Nil
  then show ?case by (simp add: extends_refl)
next
  case (Cons f files)
  obtain sig w1 where p: "process_file E opts f w = (sig, w1)"
    by (cases "process_file E opts f w")
  note e1 = process_file_extends[OF p]
  show ?case
  proof (cases sig)
    case Next
    with Cons.prems p have "for_files E opts files w1 = (r, w')" by simp
    from Cons.IH[OF this] e1 show ?thesis by (meson extends_trans)
  next
    case (Stop out)
    with Cons.prems p have "w' = w1" by simp
    with e1 show ?thesis by simp
  qed
qed

subsection \<open>The checksum manifest\<close>

lemma main_body_ok:
  assumes "requests_get E (''https://zenodo.org/api/records/'' @ recordID) = Some r"
    and "ok r" and "body r = Some j" and "js_files j = Some files"
    and "list_all has_fields files" and "md5 opts \<noteq> None"
  shows "\<exists>t. main_body E opts recordID w =
     (case wget opts of
        Some target \<Rightarrow>
          (case write_links target files (write_file ''md5sums.txt'' (md5sums_text files) w) of
             (Some e, w2) \<Rightarrow> (Uncaught e, w2)
           | (None, w2) \<Rightarrow> (Finished, w2))
      | None \<Rightarrow>
          (case for_files E opts files
                  (eprint (TotalSize t) (write_file ''md5sums.txt'' (md5sums_text files) w)) of
             (Some out, w2) \<Rightarrow> (out, w2)
           | (None, w2) \<Rightarrow> (Finished, eprint AllDownloaded w2)))"
proof -
  from sum_sizes_ok[OF assms(5), of 0] obtain t where t: "sum_sizes 0 files = Inr t" by blast
  have m: "write_md5sums files w = (None, write_file ''md5sums.txt'' (md5sums_text files) w)"
    using md5_lines_ok[OF assms(5), of "[]"] by (simp add: write_md5sums_def)
  show ?thesis
    using assms(1-4,6) t m
    by (intro exI[of _ t]) (simp add: main_body_def deliver_def getitem_def)
qed

lemma main_body_starts_with_md5sums:
  assumes "requests_get E (''https://zenodo.org/api/records/'' @ recordID) = Some r"
    and "ok r" and "body r = Some j" and "js_files j = Some files"
    and "list_all has_fields files" and "md5 opts \<noteq> None"
  shows "\<exists>es. emitted w (snd (main_body E opts recordID w)) =
           FWrite ''md5sums.txt'' (md5sums_text files) # es"
proof -
  let ?w1 = "write_file ''md5sums.txt'' (md5sums_text files) w"
  from main_body_ok[OF assms, of w] obtain t where mb: "main_body E opts recordID w =
     (case wget opts of
        Some target \<Rightarrow>
          (case write_links target files ?w1 of
             (Some e, w2) \<Rightarrow> (Uncaught e, w2)
           | (None, w2) \<Rightarrow> (Finished, w2))
      | None \<Rightarrow>
          (case for_files E opts files (eprint (TotalSize t) ?w1) of
             (Some out, w2) \<Rightarrow> (out, w2)
           | (None, w2) \<Rightarrow> (Finished, eprint AllDownloaded w2)))" by blast
  have "extends ?w1 (snd (main_body E opts recordID w))"
  proof (cases "wget opts")
    case None
    obtain r2 w2 where f: "for_files E opts files (eprint (TotalSize t) ?w1) = (r2, w2)"
      by (cases "for_files E opts files (eprint (TotalSize t) ?w1)")
    have "extends ?w1 w2"
      by (meson extends_trans extends_eprint for_files_extends[OF f])
    moreover have "snd (main_body E opts recordID w) = w2 \<or>
        snd (main_body E opts recordID w) = eprint AllDownloaded w2"
      using mb None f by (cases r2) simp_all
    ultimately show ?thesis using extends_trans[OF _ extends_eprint] by auto
  next
    case (Some target)
    obtain r2 w2 where l: "write_links target files ?w1 = (r2, w2)"
      by (cases "write_links target files ?w1")
    have "snd (main_body E opts recordID w) = w2"
      using mb Some l by (cases r2) simp_all
    with write_links_frame[OF l] show ?thesis by simp
  qed
  then have "emitted w (snd (main_body E opts recordID w)) =
          emitted w ?w1 @ emitted ?w1 (snd (main_body E opts recordID w))"
    by (rule emitted_trans[OF extends_write_file])
  then show ?thesis by (simp add: emitted_write_file)
qed

text \<open>The script after line 184: the rest of it runs in the world in which
  \<^verbatim>\<open>md5sums.txt\<close> holds the checksum manifest.\<close>

lemma main_body_deliver:
  assumes "requests_get E (''https://zenodo.org/api/records/'' @ recordID) = Some r"
    and "ok r" and "body r = Some j" and "js_files j = Some files"
    and "list_all has_fields files" and "md5 opts \<noteq> None"
  shows "main_body E opts recordID w =
     deliver E opts files (declared_total files)
       (w\<lparr>fs := (fs w)(''md5sums.txt'' \<mapsto> md5sums_text files),
          log := log w @ [FWrite ''md5sums.txt'' (md5sums_text files)]\<rparr>)"
  using assms(1-4,6) sum_sizes_total[OF assms(5), of 0] md5_lines_ok[OF assms(5), of "[]"]
  by (simp add: main_body_def write_md5sums_def write_file_def emit_def getitem_def)

lemma print_links_fs: "print_links files w = (r, w') \<Longrightarrow> fs w' = fs w"
  by (induction files arbitrary: w) (auto simp: emit_def split: sum.splits)

lemma write_links_fs_other:
  "target \<noteq> name \<Longrightarrow> write_links target files w = (r, w') \<Longrightarrow> fs w' name = fs w name"
  by (auto simp: write_links_def write_file_def emit_def split: if_splits prod.splits
           dest: print_links_fs)



lemma deliver_fs_other:
  assumes ns: "\<forall>k l fn b. wget_download E k l = Some (fn, b) \<longrightarrow> fn \<noteq> name"
    and "wget opts \<noteq> Some name" and "deliver E opts files t w = (out, w')"
  shows "fs w' name = fs w name"
proof (cases "wget opts")
  case None
  obtain r2 w2 where f: "for_files E opts files (eprint (TotalSize t) w) = (r2, w2)"
    by (cases "for_files E opts files (eprint (TotalSize t) w)")
  have "fs w2 name = fs w name"
    using for_files_fs_other[OF ns f] by (simp add: fs_eprint)
  moreover have "w' = w2 \<or> w' = eprint AllDownloaded w2"
    using assms(3) None f by (cases r2) (simp_all add: deliver_def)
  ultimately show ?thesis by (auto simp: fs_eprint)
next
  case (Some target)
  with assms(2) have ne: "target \<noteq> name" by simp
  obtain r2 w2 where l: "write_links target files w = (r2, w2)"
    by (cases "write_links target files w")
  have "w' = w2" using assms(3) Some l by (cases r2) (simp_all add: deliver_def)
  with write_links_fs_other[OF ne l] show ?thesis by simp
qed




text \<open>
  Claim C2, as stated for every run whose metadata request succeeds, fails when the
  answer is not a manifest: with a file that has no size the script ends at line 177 and
  leaves no \<^verbatim>\<open>md5sums.txt\<close>; with two files of which the second has no checksum
  it ends at line 183 and leaves \<^verbatim>\<open>md5sums.txt\<close> with one line for two files.
\<close>

theorem md5sums_counterexample:
  "fs (snd (main_body E_nosize (parse_flags []) ''1'' w_empty)) ''md5sums.txt'' = None \<and>
   fst (main_body E_nochecksum (parse_flags []) ''1'' w_empty) =
     Uncaught (KeyError ''checksum'') \<and>
   fs (snd (main_body E_nochecksum (parse_flags []) ''1'' w_empty)) ''md5sums.txt'' =
     Some (''5d41  a.txt'' @ [CHR 0x0A])"
  by code_simp

text \<open>
  Claim C2 (as amended). Whatever options are given, with or without \<^verbatim>\<open>--md5\<close>:
  when the metadata request succeeds and its body is a manifest (it parses, and every
  file has its size, key and checksum), the attribute that line 179 compares with
  \<^verbatim>\<open>None\<close> is not \<^verbatim>\<open>None\<close>, and the first effect of the script is to create
  or overwrite \<^verbatim>\<open>md5sums.txt\<close> with one line for every file of the manifest, in
  order: the digest, two spaces, the file name, a newline. The rest of the script runs
  with that file in place, and the file still holds these lines when the run ends,
  unless the link list is written to the same name or a download is saved under it.
\<close>

theorem md5sums_always_written:
  assumes "requests_get E (''https://zenodo.org/api/records/'' @ recordID) = Some r"
    and "ok r" and "body r = Some j" and "js_files j = Some files"
    and "list_all has_fields files"
  shows "md5 (parse_flags flags) \<noteq> None \<and>
         main_body E (parse_flags flags) recordID w =
           deliver E (parse_flags flags) files (declared_total files)
             (w\<lparr>fs := (fs w)(''md5sums.txt'' \<mapsto> md5sums_text files),
                log := log w @ [FWrite ''md5sums.txt'' (md5sums_text files)]\<rparr>) \<and>
         (\<exists>es. emitted w (snd (main_body E (parse_flags flags) recordID w)) =
           FWrite ''md5sums.txt'' (md5sums_text files) # es) \<and>
         ((\<forall>k l fn b. wget_download E k l = Some (fn, b) \<longrightarrow> fn \<noteq> ''md5sums.txt'') \<and>
          wget (parse_flags flags) \<noteq> Some ''md5sums.txt'' \<longrightarrow>
            fs (snd (main_body E (parse_flags flags) recordID w)) ''md5sums.txt'' =
              Some (md5sums_text files))"
proof (intro conjI impI)
  let ?opts = "parse_flags flags"
  let ?w1 = "w\<lparr>fs := (fs w)(''md5sums.txt'' \<mapsto> md5sums_text files),
                log := log w @ [FWrite ''md5sums.txt'' (md5sums_text files)]\<rparr>"
  show m: "md5 ?opts \<noteq> None" by (rule md5_parse_flags)
  show d: "main_body E ?opts recordID w = deliver E ?opts files (declared_total files) ?w1"
    by (rule main_body_deliver[OF assms m])
  show "\<exists>es. emitted w (snd (main_body E ?opts recordID w)) =
           FWrite ''md5sums.txt'' (md5sums_text files) # es"
    by (rule main_body_starts_with_md5sums[OF assms m])
  assume h: "(\<forall>k l fn b. wget_download E k l = Some (fn, b) \<longrightarrow> fn \<noteq> ''md5sums.txt'') \<and>
          wget ?opts \<noteq> Some ''md5sums.txt''"
  obtain out w' where dl: "deliver E ?opts files (declared_total files) ?w1 = (out, w')"
    by (cases "deliver E ?opts files (declared_total files) ?w1")
  from h have ns: "\<forall>k l fn b. wget_download E k l = Some (fn, b) \<longrightarrow> fn \<noteq> ''md5sums.txt''"
    and nt: "wget ?opts \<noteq> Some ''md5sums.txt''" by blast+
  from deliver_fs_other[OF ns nt dl]
  have "fs w' ''md5sums.txt'' = Some (md5sums_text files)" by simp
  with d dl show "fs (snd (main_body E ?opts recordID w)) ''md5sums.txt'' =
      Some (md5sums_text files)" by simp
qed

theorem md5sums_always_written_witness:
  "fs (snd (main_body E_one (parse_flags []) ''1'' w_empty)) ''md5sums.txt'' =
     Some (''5d41  a.txt'' @ [CHR 0x0A]) \<and>
   (\<exists>es. emitted w_empty (snd (main_body E_one (parse_flags []) ''1'' w_empty)) =
     FWrite ''md5sums.txt'' (''5d41  a.txt'' @ [CHR 0x0A]) # es)"
proof -
  let ?files = "[entry 5 ''a.txt'' ''md5:5d41'' ''http://x/a'']"
  let ?r = "\<lparr>ok = True, body = Some \<lparr>js_files = Some ?files\<rparr>\<rparr>"
  have 1: "requests_get E_one (''https://zenodo.org/api/records/'' @ ''1'') = Some ?r"
    by (simp add: E_one_def serve_def)
  have 2: "ok ?r" "body ?r = Some \<lparr>js_files = Some ?files\<rparr>"
    "js_files \<lparr>js_files = Some ?files\<rparr> = Some ?files" by simp_all
  have 3: "list_all has_fields ?files" by (simp add: has_fields_def entry_def)
  have 4: "(\<forall>k l fn b. wget_download E_one k l = Some (fn, b) \<longrightarrow> fn \<noteq> ''md5sums.txt'') \<and>
      wget (parse_flags []) \<noteq> Some ''md5sums.txt''"
    by (auto simp: E_one_def parse_flags_def default_options_def)
  have 5: "md5sums_text ?files = ''5d41  a.txt'' @ [CHR 0x0A]"
    by (simp add: entry_def digest_part_def)
  note t = md5sums_always_written[OF 1 2 3, of "[]" w_empty]
  from t[THEN conjunct2, THEN conjunct2, THEN conjunct1]
    t[THEN conjunct2, THEN conjunct2, THEN conjunct2, THEN mp, OF 4]
  show ?thesis unfolding 5 by blast
qed




subsection \<open>A checksum without a colon\<close>

text \<open>
  Claim C8, as stated, fails: a checksum without a colon is no reported failure. With the
  default options and a manifest whose one file has the checksum \<open>5d41\<close>, the script
  writes \<^verbatim>\<open>md5sums.txt\<close>, prints the size and the link, and ends with the
  \<^verbatim>\<open>ValueError\<close> of line 45, which nothing catches: no message of its own, no
  \<^verbatim>\<open>sys.exit\<close>.
\<close>

theorem no_colon_counterexample:
  "fst (main_body E_nocolon (parse_flags []) ''1'' w_empty) = Uncaught ValueError \<and>
   log (snd (main_body E_nocolon (parse_flags []) ''1'' w_empty)) =
     [FWrite ''md5sums.txt'' (''5d41  a.txt'' @ [CHR 0x0A]), EPrint (TotalSize 5),
      EPrint Blank, EPrint (LinkSize ''http://x/a'' 5)] \<and>
   \<not> reported_failure (fst (main_body E_nocolon (parse_flags []) ''1'' w_empty),
       emitted w_empty (snd (main_body E_nocolon (parse_flags []) ''1'' w_empty)))"
  by code_simp

text \<open>
  Claim C8 (as amended). For every checksum string without a colon,
  \<^verbatim>\<open>check_hash\<close> raises \<^verbatim>\<open>ValueError\<close> (the split has one piece, the
  assignment of line 45 needs two) before it looks at the file, and returns no pair; the
  loop does not catch the exception, so the iteration for a file with such a checksum ends
  the run with the uncaught \<^verbatim>\<open>ValueError\<close>.
\<close>

theorem no_colon_raises:
  assumes "CHR '':'' \<notin> set checksum"
  shows "check_hash E filename checksum w = (Inl ValueError, w) \<and>
         (\<forall>f link sz fname.
            link_of f = Inr link \<and> f_size f = Some sz \<and> f_key f = Some fname \<and>
            f_checksum f = Some checksum \<longrightarrow>
            process_file E opts f w =
              (Stop (Uncaught ValueError), eprint (LinkSize link sz) (eprint Blank w)))"
proof -
  have c: "check_hash E fn checksum w' = (Inl ValueError, w')" for fn w'
    using split_on_no_sep[OF assms] by (simp add: check_hash_def)
  show ?thesis
  proof (intro conjI allI impI)
    show "check_hash E filename checksum w = (Inl ValueError, w)" by (rule c)
  next
    fix f link sz fname
    assume h: "link_of f = Inr link \<and> f_size f = Some sz \<and> f_key f = Some fname \<and>
            f_checksum f = Some checksum"
    then have "link_of f = Inr link" "f_size f = Some sz" "f_key f = Some fname"
      "f_checksum f = Some checksum" by simp_all
    from process_file_unfold[OF this c, of opts]
    show "process_file E opts f w =
              (Stop (Uncaught ValueError), eprint (LinkSize link sz) (eprint Blank w))"
      by simp
  qed
qed

theorem no_colon_raises_witness:
  "check_hash E_ok ''a.txt'' ''5d41'' w_hello = (Inl ValueError, w_hello) \<and>
   fst (process_file E_ok default_options (entry 5 ''a.txt'' ''5d41'' ''http://x/a'') w_hello) =
     Stop (Uncaught ValueError)"
proof -
  let ?f = "entry 5 ''a.txt'' ''5d41'' ''http://x/a''"
  have a: "CHR '':'' \<notin> set ''5d41''" by simp
  have b: "link_of ?f = Inr ''http://x/a'' \<and> f_size ?f = Some 5 \<and> f_key ?f = Some ''a.txt'' \<and>
      f_checksum ?f = Some ''5d41''"
    by (simp add: entry_def link_of_def getitem_def)
  note t = no_colon_raises[OF a, of E_ok "''a.txt''" w_hello default_options]
  from t[THEN conjunct1] t[THEN conjunct2, THEN spec, THEN spec, THEN spec, THEN spec, THEN mp, OF b]
  show ?thesis by simp
qed

subsection \<open>A field missing from the metadata\<close>

lemma link_of_Inl: "\<not> has_link f \<Longrightarrow> \<exists>k. link_of f = Inl (KeyError k)"
  by (auto simp: has_link_def link_of_def getitem_def split: option.splits sum.splits)

lemma emitted_same: "emitted w w = []"
  by (simp add: emitted_def)

lemma main_body_lacks_fields:
  assumes "requests_get E (''https://zenodo.org/api/records/'' @ recordID) = Some r"
    and "ok r" and "body r = Some j" and "md5 opts \<noteq> None"
    and bad: "js_files j = None \<or> (\<exists>files. js_files j = Some files \<and> \<not> list_all has_fields files)"
  shows "\<exists>k w'. main_body E opts recordID w = (Uncaught (KeyError k), w') \<and>
           downloads (emitted w w') = [] \<and> filter is_notice (emitted w w') = []"
proof (cases "js_files j")
  case None
  with assms(1-3) have "main_body E opts recordID w = (Uncaught (KeyError ''files''), w)"
    by (simp add: main_body_def getitem_def)
  then show ?thesis by (simp add: emitted_same downloads_def)
next
  case (Some files)
  with bad have nf: "\<not> list_all has_fields files" by simp
  show ?thesis
  proof (cases "list_all (\<lambda>f. f_size f \<noteq> None) files")
    case False
    from sum_sizes_err[OF False, of 0] assms(1-3) Some
    have "main_body E opts recordID w = (Uncaught (KeyError ''size''), w)"
      by (simp add: main_body_def getitem_def)
    then show ?thesis by (simp add: emitted_same downloads_def)
  next
    case True
    from sum_sizes_ok'[OF True, of 0] obtain t where t: "sum_sizes 0 files = Inr t" by blast
    from True nf have "\<not> list_all (\<lambda>f. f_key f \<noteq> None \<and> f_checksum f \<noteq> None) files"
      unfolding list_all_iff has_fields_def by blast
    from md5_lines_err[OF this, of "[]"] obtain k out' where
      m: "md5_lines [] files = (Some (KeyError k), out')" by blast
    let ?w1 = "write_file ''md5sums.txt'' out' w"
    have "main_body E opts recordID w = (Uncaught (KeyError k), ?w1)"
      using assms(1-4) Some t m by (simp add: main_body_def getitem_def write_md5sums_def)
    moreover have "downloads (emitted w ?w1) = []" "filter is_notice (emitted w ?w1) = []"
      by (simp_all add: emitted_write_file downloads_def)
    ultimately show ?thesis by blast
  qed
qed

lemma main_body_lacks_link:
  assumes "requests_get E (''https://zenodo.org/api/records/'' @ recordID) = Some r"
    and "ok r" and "body r = Some j" and "js_files j = Some files"
    and "list_all has_fields files" and "md5 opts \<noteq> None"
    and "\<not> list_all has_link files" and "wget opts \<noteq> None"
  shows "\<exists>k w'. main_body E opts recordID w = (Uncaught (KeyError k), w') \<and>
           downloads (emitted w w') = []"
proof -
  let ?w1 = "write_file ''md5sums.txt'' (md5sums_text files) w"
  from assms(8) obtain target where tg: "wget opts = Some target" by blast
  from write_links_err[OF assms(7), of target ?w1] obtain k w' where
    l: "write_links target files ?w1 = (Some (KeyError k), w')" by blast
  from main_body_ok[OF assms(1-6), of w] tg l
  have mb: "main_body E opts recordID w = (Uncaught (KeyError k), w')" by auto
  note fr = write_links_frame[OF l]
  have "extends w w'" using extends_trans[OF extends_write_file] fr by blast
  moreover have "downloads (log w') = downloads (log w)"
    using fr by (simp add: write_file_def emit_def downloads_def)
  ultimately have "downloads (emitted w w') = []" by (rule downloads_emitted)
  with mb show ?thesis by blast
qed

text \<open>
  Claim C9, as stated, fails: a missing field is no reported failure. With the default
  options and a manifest whose one file has no \<^verbatim>\<open>size\<close>, the script ends at
  line 177 with a \<^verbatim>\<open>KeyError\<close> that nothing catches, before it has printed or
  written anything.
\<close>

theorem missing_size_counterexample:
  "fst (main_body E_nosize (parse_flags []) ''1'' w_empty) = Uncaught (KeyError ''size'') \<and>
   log (snd (main_body E_nosize (parse_flags []) ''1'' w_empty)) = [] \<and>
   \<not> reported_failure (fst (main_body E_nosize (parse_flags []) ''1'' w_empty),
       emitted w_empty (snd (main_body E_nosize (parse_flags []) ''1'' w_empty)))"
  by code_simp

text \<open>
  Claim C9 (as amended). When the metadata request is answered but \<^verbatim>\<open>files\<close>, or
  the size, key or checksum of a file, is missing from the JSON body, the script puts no
  default in its place: the lookup raises \<^verbatim>\<open>KeyError\<close>, nothing catches it, and
  the run ends with the uncaught exception before any download and without a message of
  its own. A missing link ends the run in the same way: in link-list mode before any
  download, in the download loop at the iteration of that file, before it prints
  anything.
\<close>

theorem missing_field_raises:
  assumes "requests_get E (''https://zenodo.org/api/records/'' @ recordID) = Some r"
    and "ok r" and "body r = Some j"
  shows
    "((js_files j = None \<or>
        (\<exists>files. js_files j = Some files \<and> \<not> list_all has_fields files)) \<longrightarrow>
        (\<exists>k. fst (main_body E (parse_flags flags) recordID w) = Uncaught (KeyError k)) \<and>
        downloads (emitted w (snd (main_body E (parse_flags flags) recordID w))) = [] \<and>
        filter is_notice (emitted w (snd (main_body E (parse_flags flags) recordID w))) = []) \<and>
     (\<forall>files.
        js_files j = Some files \<and> list_all has_fields files \<and> \<not> list_all has_link files \<and>
        wget (parse_flags flags) \<noteq> None \<longrightarrow>
        (\<exists>k. fst (main_body E (parse_flags flags) recordID w) = Uncaught (KeyError k)) \<and>
        downloads (emitted w (snd (main_body E (parse_flags flags) recordID w))) = []) \<and>
     (\<forall>f w0. \<not> has_link f \<longrightarrow>
        (\<exists>k. process_file E (parse_flags flags) f w0 = (Stop (Uncaught (KeyError k)), w0)))"
proof (intro conjI allI impI)
  assume bad: "js_files j = None \<or>
        (\<exists>files. js_files j = Some files \<and> \<not> list_all has_fields files)"
  from main_body_lacks_fields[OF assms md5_parse_flags bad, of flags w]
  obtain k w' where "main_body E (parse_flags flags) recordID w = (Uncaught (KeyError k), w')"
    "downloads (emitted w w') = []" "filter is_notice (emitted w w') = []" by blast
  then show "\<exists>k. fst (main_body E (parse_flags flags) recordID w) = Uncaught (KeyError k)"
    "downloads (emitted w (snd (main_body E (parse_flags flags) recordID w))) = []"
    "filter is_notice (emitted w (snd (main_body E (parse_flags flags) recordID w))) = []"
    by simp_all
next
  fix files
  assume h: "js_files j = Some files \<and> list_all has_fields files \<and>
        \<not> list_all has_link files \<and> wget (parse_flags flags) \<noteq> None"
  then have "js_files j = Some files" "list_all has_fields files"
    "\<not> list_all has_link files" "wget (parse_flags flags) \<noteq> None" by simp_all
  from main_body_lacks_link[OF assms this(1,2) md5_parse_flags this(3,4), of w]
  obtain k w' where "main_body E (parse_flags flags) recordID w = (Uncaught (KeyError k), w')"
    "downloads (emitted w w') = []" by blast
  then show "\<exists>k. fst (main_body E (parse_flags flags) recordID w) = Uncaught (KeyError k)"
    "downloads (emitted w (snd (main_body E (parse_flags flags) recordID w))) = []"
    by simp_all
next
  fix f w0
  assume "\<not> has_link f"
  from link_of_Inl[OF this] obtain k where "link_of f = Inl (KeyError k)" by blast
  then have "process_file E (parse_flags flags) f w0 = (Stop (Uncaught (KeyError k)), w0)"
    by (simp add: process_file_def)
  then show "\<exists>k. process_file E (parse_flags flags) f w0 = (Stop (Uncaught (KeyError k)), w0)"
    by blast
qed

theorem missing_field_raises_witness:
  "(\<exists>k. fst (main_body E_nosize (parse_flags []) ''1'' w_empty) = Uncaught (KeyError k)) \<and>
   downloads (emitted w_empty (snd (main_body E_nosize (parse_flags []) ''1'' w_empty))) = [] \<and>
   filter is_notice (emitted w_empty (snd (main_body E_nosize (parse_flags []) ''1'' w_empty))) = []"
proof -
  let ?files = "[\<lparr>f_size = None, f_key = Some ''a.txt'',
        f_checksum = Some ''md5:5d41'', f_links = Some [(''self'', ''http://x/a'')]\<rparr>]"
  let ?j = "\<lparr>js_files = Some ?files\<rparr>"
  let ?r = "\<lparr>ok = True, body = Some ?j\<rparr>"
  have 1: "requests_get E_nosize (''https://zenodo.org/api/records/'' @ ''1'') = Some ?r"
    by (simp add: E_nosize_def serve_def)
  have 2: "ok ?r" "body ?r = Some ?j" by simp_all
  have 3: "js_files ?j = None \<or>
      (\<exists>files. js_files ?j = Some files \<and> \<not> list_all has_fields files)"
    by (simp add: has_fields_def)
  from missing_field_raises[OF 1 2, of "[]" w_empty, THEN conjunct1, THEN mp, OF 3]
  show ?thesis .
qed

end
